theory Spec2Isabelle
  imports Main "HOL-Library.Sublist" "HOL-Library.AList"
begin

section \<open>The placeholder replacement script\<close>

text \<open>
  A shallow embedding of \<^verbatim>\<open>scripts/replace_project_placeholders.py\<close>. The script reads
  two values from \<^verbatim>\<open>cumulusci.yml\<close>, scans \<^verbatim>\<open>force-app\<close> and \<^verbatim>\<open>unpackaged\<close> for the
  tokens \<^verbatim>\<open>__PROJECT_NAME__\<close> and \<^verbatim>\<open>__PROJECT_LABEL__\<close>, rewrites file contents and then
  renames files. Every \<^verbatim>\<open>raise\<close> of the source is a value \<open>Inl e\<close>; the file system and the
  console are an explicit state that every function passes on.

  The operating system is POSIX. The file system is a tree of directories and regular
  files: it has no symbolic links and no second name for a file. A Python string is a
  \<open>string\<close> here, a text that UTF-8 can encode, so the \<^verbatim>\<open>UnicodeEncodeError\<close> of a lone
  surrogate has no counterpart; the character \<open>CHR 0x00\<close> is a character like any other.
\<close>

subsection \<open>Python strings\<close>

definition tok_name :: string where
  "tok_name = ''__PROJECT_NAME__''"

definition tok_label :: string where
  "tok_label = ''__PROJECT_LABEL__''"

text \<open>\<^verbatim>\<open>sub in s\<close>: \<open>sub\<close> occurs in \<open>s\<close> as a contiguous piece.\<close>

fun str_contains :: "string \<Rightarrow> string \<Rightarrow> bool" where
  "str_contains [] sub = (sub = [])"
| "str_contains (c # cs) sub = (prefix sub (c # cs) \<or> str_contains cs sub)"

text \<open>
  \<^verbatim>\<open>s.replace(old, new)\<close> for a non-empty \<open>old\<close>: scan from the left, replace each occurrence
  found and go on behind it, so that the occurrences replaced do not overlap.
\<close>

fun replace_scan :: "string \<Rightarrow> string \<Rightarrow> string \<Rightarrow> string" where
  "replace_scan [] old new = []"
| "replace_scan (c # cs) old new =
     (if prefix old (c # cs)
      then new @ replace_scan (drop (length old - 1) cs) old new
      else c # replace_scan cs old new)"

text \<open>With an empty \<open>old\<close>, Python puts \<open>new\<close> before every character and at the end.\<close>

definition str_replace :: "string \<Rightarrow> string \<Rightarrow> string \<Rightarrow> string" where
  "str_replace s old new =
     (if old = [] then new @ concat (map (\<lambda>c. c # new) s) else replace_scan s old new)"

text \<open>\<^verbatim>\<open>s.count(sub)\<close> for a non-empty \<open>sub\<close>: the occurrences that \<^verbatim>\<open>replace\<close> finds.\<close>

fun str_count :: "string \<Rightarrow> string \<Rightarrow> nat" where
  "str_count [] sub = 0"
| "str_count (c # cs) sub =
     (if prefix sub (c # cs)
      then Suc (str_count (drop (length sub - 1) cs) sub)
      else str_count cs sub)"

text \<open>
  A file opened in text mode is read with universal newlines: a carriage return followed
  by a line feed, and a carriage return alone, arrive as one line feed. On writing, a line
  feed becomes the line separator of the system, which is the line feed itself.
\<close>

fun translate_newlines :: "string \<Rightarrow> string" where
  "translate_newlines [] = []"
| "translate_newlines [c] = (if c = CHR 0x0D then [CHR 0x0A] else [c])"
| "translate_newlines (c # d # cs) =
     (if c = CHR 0x0D
      then (if d = CHR 0x0A then CHR 0x0A # translate_newlines cs
            else CHR 0x0A # translate_newlines (d # cs))
      else c # translate_newlines (d # cs))"

subsection \<open>Exceptions\<close>

datatype py_error =
    FileNotFoundError
  | PermissionError
  | IsADirectoryError
  | NotADirectoryError
  | OSError
  | UnicodeDecodeError
  | YAMLError
  | KeyError
  | TypeError
  | ValueError string

text \<open>\<^verbatim>\<open>except OSError\<close> catches the class and its subclasses.\<close>

fun is_OSError :: "py_error \<Rightarrow> bool" where
  "is_OSError FileNotFoundError = True"
| "is_OSError PermissionError = True"
| "is_OSError IsADirectoryError = True"
| "is_OSError NotADirectoryError = True"
| "is_OSError OSError = True"
| "is_OSError _ = False"

text \<open>
  What the operating system answers when it refuses an operation on a file. Python raises
  \<^verbatim>\<open>PermissionError\<close> for \<^verbatim>\<open>EACCES\<close> and \<^verbatim>\<open>EPERM\<close>, and a plain \<^verbatim>\<open>OSError\<close> for the others.
\<close>

datatype errno = EACCES | EPERM | EIO | EROFS | ENOSPC

fun oserror :: "errno \<Rightarrow> py_error" where
  "oserror EACCES = PermissionError"
| "oserror EPERM = PermissionError"
| "oserror _ = OSError"

subsection \<open>Values of the configuration file\<close>

text \<open>
  What \<^verbatim>\<open>yaml.safe_load\<close> returns. A mapping is a Python dict; only its string keys are kept,
  since the script looks up string keys only.
\<close>

datatype yaml =
    YNull
  | YBool bool
  | YInt int
  | YStr string
  | YSeq "yaml list"
  | YMap "(string \<times> yaml) list"

text \<open>\<^verbatim>\<open>v[k]\<close> with a string key: only a dict holding the key answers.\<close>

fun subscript :: "yaml \<Rightarrow> string \<Rightarrow> py_error + yaml" where
  "subscript (YMap m) k = (case map_of m k of None \<Rightarrow> Inl KeyError | Some v \<Rightarrow> Inr v)"
| "subscript _ k = Inl TypeError"

text \<open>\<^verbatim>\<open>s.replace(old, new)\<close> where \<open>new\<close> comes from the configuration: a \<^verbatim>\<open>TypeError\<close> unless
  it is a string.\<close>

fun py_replace :: "string \<Rightarrow> string \<Rightarrow> yaml \<Rightarrow> py_error + string" where
  "py_replace s old (YStr new) = Inr (str_replace s old new)"
| "py_replace s old _ = Inl TypeError"

subsection \<open>The file system\<close>

text \<open>
  A path is the list of its components below the working directory, which is taken to be
  the root of the file system. A regular file carries a label, its content (text that
  decodes as UTF-8, with its line ends as stored, or bytes that do not decode) and the
  error, if any, with which the operating system refuses to open it for reading, to open it
  for writing, or to rename it. No operation reads the label: a write keeps it and a rename
  moves it with the file, so that a statement can follow a file through a run. An entry
  \<open>Denied\<close> is an entry of a directory that may be listed but not searched: its name is
  known, and \<^verbatim>\<open>stat\<close>, \<^verbatim>\<open>open\<close> and \<^verbatim>\<open>rename\<close> on it are refused with \<^verbatim>\<open>EACCES\<close>. The file
  system is an association list: its order is the order of directory traversal.
\<close>

type_synonym path = "string list"

datatype fcontent = Text string | Binary string

record regular_file =
  ident :: nat
  content :: fcontent
  read_fault :: "errno option"
  write_fault :: "errno option"
  rename_fault :: "errno option"

datatype node = File regular_file | Dir | Denied

type_synonym filesystem = "(path \<times> node) list"

text \<open>A \<^verbatim>\<open>pathlib\<close> path: relative to the working directory or absolute, and its parts.\<close>

datatype ppath = PPath (is_abs: bool) (parts: "string list")

definition lookup_node :: "filesystem \<Rightarrow> path \<Rightarrow> node option" where
  "lookup_node fs p = (if p = [] then Some Dir else map_of fs p)"

text \<open>
  \<^verbatim>\<open>Path.exists()\<close> and \<^verbatim>\<open>Path.is_file()\<close> ask \<^verbatim>\<open>stat\<close>. \<open>path_exists\<close> and \<open>is_file\<close> are
  the answers; when \<^verbatim>\<open>stat\<close> is refused, the two methods raise \<^verbatim>\<open>PermissionError\<close> instead of
  answering, which is what \<open>stat_exists\<close> and \<open>stat_is_file\<close> add.
\<close>

definition path_exists :: "filesystem \<Rightarrow> path \<Rightarrow> bool" where
  "path_exists fs p = (lookup_node fs p \<noteq> None)"

definition is_file :: "filesystem \<Rightarrow> path \<Rightarrow> bool" where
  "is_file fs p = (case lookup_node fs p of Some (File f) \<Rightarrow> True | _ \<Rightarrow> False)"

definition refused :: "filesystem \<Rightarrow> path \<Rightarrow> bool" where
  "refused fs p = (lookup_node fs p = Some Denied)"

definition stat_exists :: "filesystem \<Rightarrow> path \<Rightarrow> py_error + bool" where
  "stat_exists fs p = (if refused fs p then Inl PermissionError else Inr (path_exists fs p))"

definition stat_is_file :: "filesystem \<Rightarrow> path \<Rightarrow> py_error + bool" where
  "stat_is_file fs p = (if refused fs p then Inl PermissionError else Inr (is_file fs p))"

text \<open>\<^verbatim>\<open>dir_path.rglob('*')\<close>: everything below the directory, each path once.\<close>

definition rglob :: "filesystem \<Rightarrow> path \<Rightarrow> path list" where
  "rglob fs d = filter (strict_prefix d) (remdups (map fst fs))"

text \<open>\<^verbatim>\<open>file_path.name\<close> and \<^verbatim>\<open>file_path.parent\<close>.\<close>

definition base_name :: "path \<Rightarrow> string" where
  "base_name p = (if p = [] then [] else last p)"

definition parent :: "path \<Rightarrow> path" where
  "parent p = butlast p"

text \<open>\<^verbatim>\<open>open(p, 'r', encoding='utf-8')\<close> followed by \<^verbatim>\<open>f.read()\<close>: the text decoded, with
  its line ends translated.\<close>

definition read_text :: "filesystem \<Rightarrow> path \<Rightarrow> py_error + string" where
  "read_text fs p =
     (case lookup_node fs p of
        None \<Rightarrow> Inl FileNotFoundError
      | Some Dir \<Rightarrow> Inl IsADirectoryError
      | Some Denied \<Rightarrow> Inl PermissionError
      | Some (File f) \<Rightarrow>
          (case read_fault f of
             Some e \<Rightarrow> Inl (oserror e)
           | None \<Rightarrow>
               (case content f of
                  Text s \<Rightarrow> Inr (translate_newlines s)
                | Binary b \<Rightarrow> Inl UnicodeDecodeError)))"

text \<open>A label that no file of the file system carries, for a file that is created.\<close>

definition fresh_ident :: "filesystem \<Rightarrow> nat" where
  "fresh_ident fs =
     Suc (foldr (\<lambda>(p, nd) m. case nd of File f \<Rightarrow> max (ident f) m | _ \<Rightarrow> m) fs 0)"

text \<open>\<^verbatim>\<open>open(p, 'w', encoding='utf-8')\<close> followed by \<^verbatim>\<open>f.write(s)\<close>: the text is stored as it
  is; a refusal leaves the file as it was.\<close>

definition write_text :: "filesystem \<Rightarrow> path \<Rightarrow> string \<Rightarrow> py_error + filesystem" where
  "write_text fs p s =
     (case lookup_node fs p of
        None \<Rightarrow>
          Inr (AList.update p
            (File \<lparr>ident = fresh_ident fs, content = Text s, read_fault = None,
                   write_fault = None, rename_fault = None\<rparr>) fs)
      | Some Dir \<Rightarrow> Inl IsADirectoryError
      | Some Denied \<Rightarrow> Inl PermissionError
      | Some (File f) \<Rightarrow>
          (case write_fault f of
             Some e \<Rightarrow> Inl (oserror e)
           | None \<Rightarrow> Inr (AList.update p (File (f\<lparr>content := Text s\<rparr>)) fs)))"

text \<open>Splitting a name at a separator, as \<^verbatim>\<open>pathlib\<close> does with \<^verbatim>\<open>/\<close>.\<close>

fun split_sep :: "char \<Rightarrow> string \<Rightarrow> string list" where
  "split_sep c [] = [[]]"
| "split_sep c (x # xs) =
     (if x = c then [] # split_sep c xs
      else (case split_sep c xs of [] \<Rightarrow> [[x]] | y # ys \<Rightarrow> (x # y) # ys))"

text \<open>
  \<^verbatim>\<open>parent / new_name\<close>: the name is split at \<^verbatim>\<open>/\<close>, empty parts and \<^verbatim>\<open>.\<close> are dropped,
  \<^verbatim>\<open>..\<close> is kept; a name that starts with \<^verbatim>\<open>/\<close> is absolute and replaces the parent.
\<close>

definition path_join :: "path \<Rightarrow> string \<Rightarrow> ppath" where
  "path_join d new_name =
     (let ps = filter (\<lambda>s. s \<noteq> [] \<and> s \<noteq> ''.'') (split_sep CHR ''/'' new_name)
      in if prefix ''/'' new_name then PPath True ps else PPath False (d @ ps))"

text \<open>
  A path with a NUL character never reaches the operating system: Python raises
  \<^verbatim>\<open>ValueError\<close> (embedded null byte) when it converts the path, and this is no \<^verbatim>\<open>OSError\<close>.
  Only a new name can bring such a character: the paths that the script opens and the
  sources of its renames are paths that the scan has found in the file system.
\<close>

definition has_nul :: "string list \<Rightarrow> bool" where
  "has_nul cs = list_ex (\<lambda>c. CHR 0x00 \<in> set c) cs"

definition embedded_null :: py_error where
  "embedded_null = ValueError ''embedded null byte''"

text \<open>
  The resolution of a path that is handed to the operating system. A path with a NUL
  character is rejected before that. The operating system then resolves the path component
  by component: \<^verbatim>\<open>..\<close> goes one directory up (and stays at the root), every component but
  the last must be a directory, and the directory of the last one must be searchable.
\<close>

fun walk :: "filesystem \<Rightarrow> path \<Rightarrow> string list \<Rightarrow> py_error + path" where
  "walk fs cur [] = Inr cur"
| "walk fs cur (c # cs) =
     (if has_nul (c # cs) then Inl embedded_null
      else (let nxt = (if c = ''..'' then butlast cur else cur @ [c])
            in if cs = []
               then (if lookup_node fs nxt = Some Denied then Inl PermissionError else Inr nxt)
               else (case lookup_node fs nxt of
                       None \<Rightarrow> Inl FileNotFoundError
                     | Some (File f) \<Rightarrow> Inl NotADirectoryError
                     | Some Denied \<Rightarrow> Inl PermissionError
                     | Some Dir \<Rightarrow> walk fs nxt cs)))"

text \<open>
  \<^verbatim>\<open>os.rename(src, dst)\<close> on POSIX, for a regular file \<open>src\<close>: a NUL in the new path is
  rejected before anything else, a directory at the destination refuses, a regular file
  there is replaced silently. The sources of the script are scan results, regular files; no
  operation here creates a directory.
\<close>

definition fs_rename :: "filesystem \<Rightarrow> path \<Rightarrow> ppath \<Rightarrow> py_error + filesystem" where
  "fs_rename fs src dst =
     (if has_nul (parts dst) then Inl embedded_null
      else (case lookup_node fs src of
        None \<Rightarrow> Inl FileNotFoundError
      | Some Dir \<Rightarrow> Inl OSError
      | Some Denied \<Rightarrow> Inl PermissionError
      | Some (File f) \<Rightarrow>
          (case rename_fault f of
             Some e \<Rightarrow> Inl (oserror e)
           | None \<Rightarrow>
               (case walk fs [] (parts dst) of
                  Inl e \<Rightarrow> Inl e
                | Inr d \<Rightarrow>
                    if d = src then Inr fs
                    else (case lookup_node fs d of
                            Some Dir \<Rightarrow> Inl IsADirectoryError
                          | Some Denied \<Rightarrow> Inl PermissionError
                          | _ \<Rightarrow> Inr (AList.update d (File f) (AList.delete src fs)))))))"

subsection \<open>Console output and the record of operations\<close>

datatype line =
    Starting
  | ProjectNameLine yaml
  | ProjectLabelLine yaml
  | ErrorLoading py_error
  | Searching
  | FoundContent nat
  | FoundNames nat
  | UpdatingContents
  | WarnUpdate path py_error
  | UpdatedContent path
  | RenamingFiles
  | WarnRename path ppath py_error
  | Renamed string string
  | Summary nat nat
  | Completed

datatype event =
    Print line
  | OpenRead path
  | OpenWrite path
  | Rename path ppath

record world =
  files :: filesystem
  events :: "event list"

definition emit :: "event \<Rightarrow> world \<Rightarrow> world" where
  "emit e w = w\<lparr>events := events w @ [e]\<rparr>"

subsection \<open>The functions of the script\<close>

definition config_path :: path where
  "config_path = [''cumulusci.yml'']"

text \<open>
  \<^verbatim>\<open>load_cumulusci_config\<close>. The YAML parser is a parameter: \<open>None\<close> is its \<^verbatim>\<open>YAMLError\<close>.
  The two \<^verbatim>\<open>except\<close> clauses translate \<^verbatim>\<open>FileNotFoundError\<close> and \<^verbatim>\<open>YAMLError\<close>; every other
  exception passes.
\<close>

definition load_cumulusci_config ::
  "(string \<Rightarrow> yaml option) \<Rightarrow> world \<Rightarrow> (py_error + yaml) \<times> world" where
  "load_cumulusci_config yaml_safe_load w =
     (let w' = emit (OpenRead config_path) w;
          body = (case read_text (files w') config_path of
                    Inl e \<Rightarrow> Inl e
                  | Inr s \<Rightarrow> (case yaml_safe_load s of None \<Rightarrow> Inl YAMLError | Some c \<Rightarrow> Inr c))
      in (case body of
            Inl e \<Rightarrow>
              if e = FileNotFoundError then Inl FileNotFoundError
              else if e = YAMLError then Inl (ValueError ''Error parsing cumulusci.yml'')
              else Inl e
          | Inr c \<Rightarrow> Inr c, w'))"

text \<open>\<^verbatim>\<open>get_project_values\<close>: a \<^verbatim>\<open>KeyError\<close> becomes a \<^verbatim>\<open>ValueError\<close>, every other exception
  passes.\<close>

definition lookup3 :: "yaml \<Rightarrow> string \<Rightarrow> string \<Rightarrow> string \<Rightarrow> py_error + yaml" where
  "lookup3 config a b c =
     (case subscript config a of
        Inl e \<Rightarrow> Inl e
      | Inr x \<Rightarrow> (case subscript x b of Inl e \<Rightarrow> Inl e | Inr y \<Rightarrow> subscript y c))"

definition get_project_values :: "yaml \<Rightarrow> py_error + (yaml \<times> yaml)" where
  "get_project_values config =
     (let body = (case lookup3 config ''project'' ''package'' ''name'' of
                    Inl e \<Rightarrow> Inl e
                  | Inr project_name \<Rightarrow>
                      (case lookup3 config ''project'' ''package'' ''name_managed'' of
                         Inl e \<Rightarrow> Inl e
                       | Inr project_label \<Rightarrow> Inr (project_name, project_label)))
      in (case body of
            Inl e \<Rightarrow>
              if e = KeyError
              then Inl (ValueError ''Missing required configuration in cumulusci.yml'')
              else Inl e
          | Inr v \<Rightarrow> Inr v))"

definition search_dirs :: "string list" where
  "search_dirs = [''force-app'', ''unpackaged'']"

definition has_placeholder :: "string \<Rightarrow> bool" where
  "has_placeholder s = (str_contains s tok_name \<or> str_contains s tok_label)"

text \<open>
  \<^verbatim>\<open>find_files_with_placeholders\<close>: the inner loop over \<^verbatim>\<open>rglob\<close>, the outer loop over the two
  directories. \<^verbatim>\<open>UnicodeDecodeError\<close> and \<^verbatim>\<open>PermissionError\<close> of the read skip the file; the
  calls of \<^verbatim>\<open>exists\<close> and \<^verbatim>\<open>is_file\<close> are outside the \<^verbatim>\<open>try\<close>.
\<close>

fun scan_files :: "path list \<Rightarrow> path list \<Rightarrow> world \<Rightarrow> (py_error + path list) \<times> world" where
  "scan_files [] files_to_update w = (Inr files_to_update, w)"
| "scan_files (p # ps) files_to_update w =
     (case stat_is_file (files w) p of
        Inl e \<Rightarrow> (Inl e, w)
      | Inr regular \<Rightarrow>
          if regular
          then (let w' = emit (OpenRead p) w
                in case read_text (files w') p of
                     Inr s \<Rightarrow>
                       if has_placeholder s then scan_files ps (files_to_update @ [p]) w'
                       else scan_files ps files_to_update w'
                   | Inl e \<Rightarrow>
                       if e = UnicodeDecodeError \<or> e = PermissionError
                       then scan_files ps files_to_update w'
                       else (Inl e, w'))
          else scan_files ps files_to_update w)"

fun scan_dirs ::
  "string list \<Rightarrow> path \<Rightarrow> path list \<Rightarrow> world \<Rightarrow> (py_error + path list) \<times> world" where
  "scan_dirs [] root_path files_to_update w = (Inr files_to_update, w)"
| "scan_dirs (search_dir # ds) root_path files_to_update w =
     (let dir_path = root_path @ [search_dir]
      in case stat_exists (files w) dir_path of
           Inl e \<Rightarrow> (Inl e, w)
         | Inr found \<Rightarrow>
             if found
             then (case scan_files (rglob (files w) dir_path) files_to_update w of
                     (Inl e, w') \<Rightarrow> (Inl e, w')
                   | (Inr acc, w') \<Rightarrow> scan_dirs ds root_path acc w')
             else scan_dirs ds root_path files_to_update w)"

definition find_files_with_placeholders ::
  "path \<Rightarrow> world \<Rightarrow> (py_error + path list) \<times> world" where
  "find_files_with_placeholders root_path w = scan_dirs search_dirs root_path [] w"

text \<open>
  \<^verbatim>\<open>find_files_with_placeholder_names\<close> opens no file. The definition of this name is the
  list that the two loops build from the answers of \<^verbatim>\<open>exists\<close> and \<^verbatim>\<open>is_file\<close>. The call
  itself is \<open>names_scan\<close>: when one of these answers is refused, in whichever of the two
  directories, it ends with the \<^verbatim>\<open>PermissionError\<close> and returns no list.
\<close>

definition find_files_with_placeholder_names :: "path \<Rightarrow> filesystem \<Rightarrow> path list" where
  "find_files_with_placeholder_names root_path fs =
     concat (map (\<lambda>search_dir.
       let dir_path = root_path @ [search_dir]
       in if path_exists fs dir_path
          then filter (\<lambda>file_path. is_file fs file_path \<and> has_placeholder (base_name file_path))
                 (rglob fs dir_path)
          else []) search_dirs)"

definition names_scan_refused :: "path \<Rightarrow> filesystem \<Rightarrow> bool" where
  "names_scan_refused root_path fs =
     list_ex (\<lambda>search_dir.
       let dir_path = root_path @ [search_dir]
       in refused fs dir_path
          \<or> (path_exists fs dir_path \<and> list_ex (refused fs) (rglob fs dir_path))) search_dirs"

definition names_scan :: "path \<Rightarrow> filesystem \<Rightarrow> py_error + path list" where
  "names_scan root_path fs =
     (if names_scan_refused root_path fs then Inl PermissionError
      else Inr (find_files_with_placeholder_names root_path fs))"

text \<open>\<^verbatim>\<open>update_file_content\<close>; \<open>update_handler\<close> is its \<^verbatim>\<open>except\<close> clause.\<close>

definition update_handler :: "path \<Rightarrow> py_error \<Rightarrow> world \<Rightarrow> (py_error + bool) \<times> world" where
  "update_handler file_path e w =
     (if e = UnicodeDecodeError \<or> e = PermissionError
      then (Inr False, emit (Print (WarnUpdate file_path e)) w)
      else (Inl e, w))"

definition update_file_content ::
  "path \<Rightarrow> yaml \<Rightarrow> yaml \<Rightarrow> world \<Rightarrow> (py_error + bool) \<times> world" where
  "update_file_content file_path project_name project_label w =
     (let w1 = emit (OpenRead file_path) w
      in case read_text (files w1) file_path of
           Inl e \<Rightarrow> update_handler file_path e w1
         | Inr original_content \<Rightarrow>
             (case py_replace original_content tok_name project_name of
                Inl e \<Rightarrow> update_handler file_path e w1
              | Inr c1 \<Rightarrow>
                  (case py_replace c1 tok_label project_label of
                     Inl e \<Rightarrow> update_handler file_path e w1
                   | Inr c2 \<Rightarrow>
                       if c2 \<noteq> original_content
                       then (let w2 = emit (OpenWrite file_path) w1
                             in case write_text (files w2) file_path c2 of
                                  Inl e \<Rightarrow> update_handler file_path e w2
                                | Inr fs' \<Rightarrow> (Inr True, w2\<lparr>files := fs'\<rparr>))
                       else (Inr False, w1))))"

text \<open>\<^verbatim>\<open>rename_file\<close>: the two calls of \<^verbatim>\<open>replace\<close> are outside the \<^verbatim>\<open>try\<close>.\<close>

definition rename_file ::
  "path \<Rightarrow> yaml \<Rightarrow> yaml \<Rightarrow> world \<Rightarrow> (py_error + ppath) \<times> world" where
  "rename_file file_path project_name project_label w =
     (case py_replace (base_name file_path) tok_name project_name of
        Inl e \<Rightarrow> (Inl e, w)
      | Inr n1 \<Rightarrow>
          (case py_replace n1 tok_label project_label of
             Inl e \<Rightarrow> (Inl e, w)
           | Inr new_name \<Rightarrow>
               if new_name \<noteq> base_name file_path
               then (let new_path = path_join (parent file_path) new_name;
                         w1 = emit (Rename file_path new_path) w
                     in case fs_rename (files w1) file_path new_path of
                          Inr fs' \<Rightarrow> (Inr new_path, w1\<lparr>files := fs'\<rparr>)
                        | Inl e \<Rightarrow>
                            if is_OSError e
                            then (Inr (PPath False file_path),
                                  emit (Print (WarnRename file_path new_path e)) w1)
                            else (Inl e, w1))
               else (Inr (PPath False file_path), w)))"

text \<open>The two loops of \<^verbatim>\<open>main\<close>, each with its counter.\<close>

fun update_loop ::
  "path list \<Rightarrow> yaml \<Rightarrow> yaml \<Rightarrow> nat \<Rightarrow> world \<Rightarrow> (py_error + nat) \<times> world" where
  "update_loop [] project_name project_label content_updated w = (Inr content_updated, w)"
| "update_loop (file_path # ps) project_name project_label content_updated w =
     (case update_file_content file_path project_name project_label w of
        (Inl e, w') \<Rightarrow> (Inl e, w')
      | (Inr changed, w') \<Rightarrow>
          if changed
          then update_loop ps project_name project_label (Suc content_updated)
                 (emit (Print (UpdatedContent file_path)) w')
          else update_loop ps project_name project_label content_updated w')"

fun rename_loop ::
  "path list \<Rightarrow> yaml \<Rightarrow> yaml \<Rightarrow> nat \<Rightarrow> world \<Rightarrow> (py_error + nat) \<times> world" where
  "rename_loop [] project_name project_label renamed w = (Inr renamed, w)"
| "rename_loop (file_path # ps) project_name project_label renamed w =
     (case rename_file file_path project_name project_label w of
        (Inl e, w') \<Rightarrow> (Inl e, w')
      | (Inr new_path, w') \<Rightarrow>
          if new_path \<noteq> PPath False file_path
          then rename_loop ps project_name project_label (Suc renamed)
                 (emit (Print (Renamed (base_name file_path) (base_name (parts new_path)))) w')
          else rename_loop ps project_name project_label renamed w')"

text \<open>
  \<^verbatim>\<open>main\<close>. Its \<^verbatim>\<open>try\<close> block loads the configuration and extracts the two values;
  \<^verbatim>\<open>except Exception\<close> catches whatever is raised there and \<^verbatim>\<open>main\<close> returns 1. What follows
  the block is a function of its own here, \<open>main_after_config\<close>. \<^verbatim>\<open>main\<close> returns \<^verbatim>\<open>None\<close> at
  its end; an exception that nothing catches leaves it as \<open>Inl\<close>.
\<close>

definition load_configuration ::
  "(string \<Rightarrow> yaml option) \<Rightarrow> world \<Rightarrow> (py_error + yaml \<times> yaml) \<times> world" where
  "load_configuration yaml_safe_load w =
     (case load_cumulusci_config yaml_safe_load w of
        (Inl e, w') \<Rightarrow> (Inl e, w')
      | (Inr config, w') \<Rightarrow>
          (case get_project_values config of
             Inl e \<Rightarrow> (Inl e, w')
           | Inr v \<Rightarrow> (Inr v, w')))"

definition main_after_config :: "yaml \<Rightarrow> yaml \<Rightarrow> world \<Rightarrow> (py_error + nat option) \<times> world" where
  "main_after_config project_name project_label w =
     (case find_files_with_placeholders [] (emit (Print Searching) w) of
        (Inl e, w1) \<Rightarrow> (Inl e, w1)
      | (Inr files_to_update, w1) \<Rightarrow>
          (case names_scan [] (files w1) of
             Inl e \<Rightarrow> (Inl e, w1)
           | Inr files_to_rename \<Rightarrow>
          (let w2 = emit (Print (FoundContent (length files_to_update))) w1;
               w3 = emit (Print (FoundNames (length files_to_rename))) w2;
               w4 = emit (Print UpdatingContents) w3
           in case update_loop files_to_update project_name project_label 0 w4 of
                (Inl e, w5) \<Rightarrow> (Inl e, w5)
              | (Inr content_updated, w5) \<Rightarrow>
                  (case rename_loop files_to_rename project_name project_label 0
                          (emit (Print RenamingFiles) w5) of
                     (Inl e, w6) \<Rightarrow> (Inl e, w6)
                   | (Inr renamed, w6) \<Rightarrow>
                       (Inr None,
                        emit (Print Completed)
                          (emit (Print (Summary content_updated renamed)) w6))))))"

definition main ::
  "(string \<Rightarrow> yaml option) \<Rightarrow> world \<Rightarrow> (py_error + nat option) \<times> world" where
  "main yaml_safe_load w0 =
     (case load_configuration yaml_safe_load (emit (Print Starting) w0) of
        (Inl e, w1) \<Rightarrow> (Inr (Some 1), emit (Print (ErrorLoading e)) w1)
      | (Inr (project_name, project_label), w1) \<Rightarrow>
          main_after_config project_name project_label
            (emit (Print (ProjectLabelLine project_label))
               (emit (Print (ProjectNameLine project_name)) w1)))"

text \<open>
  \<^verbatim>\<open>exit(main())\<close>: the status is the value returned, 0 for \<^verbatim>\<open>None\<close>; an uncaught exception
  ends the process with status 1.
\<close>

fun exit_status :: "py_error + nat option \<Rightarrow> nat" where
  "exit_status (Inl e) = 1"
| "exit_status (Inr None) = 0"
| "exit_status (Inr (Some n)) = n"

subsection \<open>Notions used in the statements\<close>

text \<open>An end of \<open>x\<close> is a beginning of \<open>y\<close>. A replacement value \<open>new\<close> fits a token \<open>u\<close>
  when it neither contains the token nor occurs in it (so it is not empty), and no end of
  the one is a beginning of the other.\<close>

definition overlaps :: "string \<Rightarrow> string \<Rightarrow> bool" where
  "overlaps x y = list_ex (\<lambda>z. z \<noteq> [] \<and> prefix z y) (suffixes x)"

definition fits :: "string \<Rightarrow> string \<Rightarrow> bool" where
  "fits u new =
     (\<not> str_contains new u \<and> \<not> str_contains u new \<and> \<not> overlaps u new \<and> \<not> overlaps new u)"

text \<open>The text that \<open>update_file_content\<close> computes from the text it reads.\<close>

definition rewritten :: "string \<Rightarrow> string \<Rightarrow> string \<Rightarrow> string" where
  "rewritten s project_name project_label =
     str_replace (str_replace s tok_name project_name) tok_label project_label"

text \<open>What the two scans select: a regular file whose text holds a token, and a regular
  file whose name holds one.\<close>

definition content_match :: "filesystem \<Rightarrow> path \<Rightarrow> bool" where
  "content_match fs p =
     (is_file fs p \<and> (case read_text fs p of Inr s \<Rightarrow> has_placeholder s | Inl e \<Rightarrow> False))"

definition name_match :: "filesystem \<Rightarrow> path \<Rightarrow> bool" where
  "name_match fs p = (is_file fs p \<and> has_placeholder (base_name p))"

text \<open>Strictly below \<^verbatim>\<open>force-app\<close> or \<^verbatim>\<open>unpackaged\<close>.\<close>

definition in_search_dirs :: "path \<Rightarrow> bool" where
  "in_search_dirs p = list_ex (\<lambda>d. strict_prefix [d] p) search_dirs"

text \<open>Kinds of events, and a record of operations in which no file is opened once a
  rename has been attempted.\<close>

fun is_rename :: "event \<Rightarrow> bool" where
  "is_rename (Rename p d) = True"
| "is_rename _ = False"

fun is_access :: "event \<Rightarrow> bool" where
  "is_access (OpenRead p) = True"
| "is_access (OpenWrite p) = True"
| "is_access _ = False"

fun is_print :: "event \<Rightarrow> bool" where
  "is_print (Print x) = True"
| "is_print _ = False"

fun renames_last :: "event list \<Rightarrow> bool" where
  "renames_last [] = True"
| "renames_last (e # es) =
     (if is_rename e then list_all (\<lambda>x. \<not> is_access x) es else renames_last es)"

text \<open>\<open>only P w w'\<close>: from \<open>w\<close> to \<open>w'\<close> the record grew by events that satisfy \<open>P\<close>.\<close>

definition only :: "(event \<Rightarrow> bool) \<Rightarrow> world \<Rightarrow> world \<Rightarrow> bool" where
  "only P w w' = (\<exists>es. events w' = events w @ es \<and> list_all P es)"

text \<open>The outcome of the \<^verbatim>\<open>try\<close> block of \<^verbatim>\<open>main\<close>, which depends on the files only.\<close>

definition configuration :: "(string \<Rightarrow> yaml option) \<Rightarrow> filesystem \<Rightarrow> py_error + yaml \<times> yaml" where
  "configuration yaml_safe_load fs = fst (load_configuration yaml_safe_load \<lparr>files = fs, events = []\<rparr>)"

text \<open>A file system in which every refusal to open a file below a searched directory is a
  refusal of permission.\<close>

definition permission_or_none :: "errno option \<Rightarrow> bool" where
  "permission_or_none x = (case x of None \<Rightarrow> True | Some e \<Rightarrow> oserror e = PermissionError)"

definition benign_faults :: "filesystem \<Rightarrow> bool" where
  "benign_faults fs =
     list_all (\<lambda>(p, nd). in_search_dirs p \<longrightarrow>
                 (case nd of
                    File f \<Rightarrow> permission_or_none (read_fault f) \<and> permission_or_none (write_fault f)
                  | _ \<Rightarrow> True)) fs"

text \<open>The value that a path of keys leads to through nested mappings, and whether a mapping
  on the way lacks its key. The two errors that the loader raises itself, and the two paths
  it follows.\<close>

fun field_at :: "yaml \<Rightarrow> string list \<Rightarrow> yaml option" where
  "field_at v [] = Some v"
| "field_at (YMap m) (k # ks) = (case map_of m k of None \<Rightarrow> None | Some v \<Rightarrow> field_at v ks)"
| "field_at _ (k # ks) = None"

fun lacks_key :: "yaml \<Rightarrow> string list \<Rightarrow> bool" where
  "lacks_key v [] = False"
| "lacks_key (YMap m) (k # ks) = (case map_of m k of None \<Rightarrow> True | Some v \<Rightarrow> lacks_key v ks)"
| "lacks_key _ (k # ks) = False"

definition missing_field :: py_error where
  "missing_field = ValueError ''Missing required configuration in cumulusci.yml''"

definition parse_error :: py_error where
  "parse_error = ValueError ''Error parsing cumulusci.yml''"

definition name_path :: "string list" where
  "name_path = [''project'', ''package'', ''name'']"

definition managed_path :: "string list" where
  "managed_path = [''project'', ''package'', ''name_managed'']"

text \<open>File names as a file system has them: no component is \<^verbatim>\<open>..\<close> or holds a \<^verbatim>\<open>/\<close>.
  A path at or below a searched directory. A configured value without \<^verbatim>\<open>/\<close>.\<close>

definition valid_name :: "string \<Rightarrow> bool" where
  "valid_name c = (c \<noteq> ''..'' \<and> CHR ''/'' \<notin> set c)"

definition wf_paths :: "filesystem \<Rightarrow> bool" where
  "wf_paths fs = list_all (\<lambda>(p, nd). list_all valid_name p) fs"

definition under_search_dirs :: "path \<Rightarrow> bool" where
  "under_search_dirs p = list_ex (\<lambda>d. prefix [d] p) search_dirs"

fun no_slash :: "yaml \<Rightarrow> bool" where
  "no_slash (YStr s) = (CHR ''/'' \<notin> set s)"
| "no_slash _ = True"

text \<open>A file system in which \<^verbatim>\<open>stat\<close> is refused for no entry at or below a searched
  directory, and one in which no name below a searched directory holds a NUL character (no
  file system has such a name).\<close>

definition searchable :: "filesystem \<Rightarrow> bool" where
  "searchable fs = list_all (\<lambda>(p, nd). under_search_dirs p \<longrightarrow> nd \<noteq> Denied) fs"

definition names_without_nul :: "filesystem \<Rightarrow> bool" where
  "names_without_nul fs = list_all (\<lambda>(p, nd). in_search_dirs p \<longrightarrow> \<not> has_nul p) fs"

text \<open>The events that a step added to the record, and a record in which no rename has
  the path \<open>q\<close> as its source or as its destination.\<close>

definition new_events :: "world \<Rightarrow> world \<Rightarrow> event list" where
  "new_events w w' = drop (length (events w)) (events w')"

fun rename_avoids :: "path \<Rightarrow> event \<Rightarrow> bool" where
  "rename_avoids q (Rename p d) = (p \<noteq> q \<and> parts d \<noteq> q)"
| "rename_avoids q _ = True"

definition renames_avoid :: "path \<Rightarrow> event list \<Rightarrow> bool" where
  "renames_avoid q es = list_all (rename_avoids q) es"

text \<open>The same tree with other contents in its regular files.\<close>

definition set_contents :: "(path \<Rightarrow> fcontent) \<Rightarrow> filesystem \<Rightarrow> filesystem" where
  "set_contents g fs =
     map (\<lambda>(p, nd). (p, case nd of File f \<Rightarrow> File (f\<lparr>content := g p\<rparr>) | _ \<Rightarrow> nd)) fs"

text \<open>An event that opens for writing or renames a path strictly below a searched
  directory, if it opens for writing or renames at all; and a rename whose new path is
  relative and lies at or below a searched directory.\<close>

fun writes_inside :: "event \<Rightarrow> bool" where
  "writes_inside (OpenWrite q) = in_search_dirs q"
| "writes_inside (Rename p d) = in_search_dirs p"
| "writes_inside _ = True"

fun rename_stays :: "event \<Rightarrow> bool" where
  "rename_stays (Rename p d) = (\<not> is_abs d \<and> under_search_dirs (parts d))"
| "rename_stays _ = True"


subsection \<open>A small project tree\<close>

text \<open>The configuration and the tree of the example in the specification, with a few more
  entries: a file outside the searched directories, a directory whose name holds a token,
  a binary file and a directory that already has the name a file is to be renamed to.\<close>

definition plain_file :: "fcontent \<Rightarrow> node" where
  "plain_file c =
     File \<lparr>ident = 0, content = c, read_fault = None, write_fault = None, rename_fault = None\<rparr>"

definition demo_config :: yaml where
  "demo_config =
     YMap [(''project'',
       YMap [(''package'',
         YMap [(''name'', YStr ''Acme''), (''name_managed'', YStr ''Acme-Label'')])])]"

definition demo_yaml :: string where
  "demo_yaml = ''project: {package: {name: Acme, name_managed: Acme-Label}}''"

definition demo_parse :: "string \<Rightarrow> yaml option" where
  "demo_parse s = (if s = demo_yaml then Some demo_config else None)"

definition demo_files :: filesystem where
  "demo_files =
     [([''cumulusci.yml''], plain_file (Text demo_yaml)),
      ([''README.md''], plain_file (Text ''# __PROJECT_LABEL__'')),
      ([''force-app''], Dir),
      ([''force-app'', ''classes''], Dir),
      ([''force-app'', ''classes'', ''__PROJECT_NAME__Controller.cls''],
         plain_file (Text
           ''public class __PROJECT_NAME__Controller implements __PROJECT_LABEL__Interface'')),
      ([''force-app'', ''__PROJECT_LABEL__''], Dir),
      ([''force-app'', ''logo.bin''], plain_file (Binary ''__PROJECT_NAME__'')),
      ([''unpackaged''], Dir),
      ([''unpackaged'', ''__PROJECT_NAME__.txt''], plain_file (Binary ''GIF89a'')),
      ([''unpackaged'', ''Acme.txt''], Dir)]"

definition demo_world :: world where
  "demo_world = \<lparr>files = demo_files, events = []\<rparr>"

text \<open>A tree in which one of two files that hold a token is on a read-only file system.\<close>

definition readonly_file :: "fcontent \<Rightarrow> node" where
  "readonly_file c =
     File \<lparr>ident = 0, content = c, read_fault = None, write_fault = Some EROFS,
           rename_fault = None\<rparr>"

definition rofs_files :: filesystem where
  "rofs_files =
     [([''cumulusci.yml''], plain_file (Text demo_yaml)),
      ([''force-app''], Dir),
      ([''force-app'', ''a.txt''], readonly_file (Text ''__PROJECT_NAME__'')),
      ([''force-app'', ''b.txt''], plain_file (Text ''__PROJECT_NAME__''))]"

definition rofs_world :: world where
  "rofs_world = \<lparr>files = rofs_files, events = []\<rparr>"

text \<open>A configuration whose name leads out of the searched directory, and a tree in which
  a binary file already has the name that another file is renamed to.\<close>

definition escape_config :: yaml where
  "escape_config =
     YMap [(''project'',
       YMap [(''package'',
         YMap [(''name'', YStr ''../README.md''), (''name_managed'', YStr ''Esc'')])])]"

definition escape_parse :: "string \<Rightarrow> yaml option" where
  "escape_parse s = Some escape_config"

definition escape_files :: filesystem where
  "escape_files =
     [([''cumulusci.yml''], plain_file (Text ''project: ...'')),
      ([''README.md''], plain_file (Text ''read me'')),
      ([''force-app''], Dir),
      ([''force-app'', ''__PROJECT_NAME__''], plain_file (Text ''moved'')),
      ([''force-app'', ''Esc.bin''], plain_file (Binary ''GIF89a'')),
      ([''force-app'', ''__PROJECT_LABEL__.bin''], plain_file (Text ''text''))]"

definition escape_world :: world where
  "escape_world = \<lparr>files = escape_files, events = []\<rparr>"

text \<open>A tree whose files carry different labels, with a class file that has DOS line ends
  and holds a token in its name and in its text, and a text file that holds a token in its
  text only.\<close>

definition numbered_file :: "nat \<Rightarrow> fcontent \<Rightarrow> node" where
  "numbered_file i c =
     File \<lparr>ident = i, content = c, read_fault = None, write_fault = None, rename_fault = None\<rparr>"

definition crlf_files :: filesystem where
  "crlf_files =
     [([''cumulusci.yml''], numbered_file 1 (Text demo_yaml)),
      ([''force-app''], Dir),
      ([''force-app'', ''__PROJECT_NAME__.cls''],
         numbered_file 2 (Text (''class __PROJECT_NAME__ {'' @ [CHR 0x0D, CHR 0x0A] @ ''}''))),
      ([''force-app'', ''notes.txt''],
         numbered_file 3 (Text (''for __PROJECT_LABEL__'' @ [CHR 0x0D] @ ''end'')))]"

definition crlf_world :: world where
  "crlf_world = \<lparr>files = crlf_files, events = []\<rparr>"

text \<open>A configuration whose name holds a NUL character, which a double-quoted YAML
  string can hold through its escape for NUL, and a tree with two name candidates.\<close>

definition nul_config :: yaml where
  "nul_config =
     YMap [(''project'',
       YMap [(''package'',
         YMap [(''name'', YStr (''A'' @ [CHR 0x00])), (''name_managed'', YStr ''L'')])])]"

definition nul_parse :: "string \<Rightarrow> yaml option" where
  "nul_parse s = Some nul_config"

definition nul_files :: filesystem where
  "nul_files =
     [([''cumulusci.yml''], plain_file (Text ''project: ...'')),
      ([''force-app''], Dir),
      ([''force-app'', ''__PROJECT_NAME__.cls''], plain_file (Text ''one'')),
      ([''force-app'', ''__PROJECT_LABEL__.txt''], plain_file (Text ''two''))]"

definition nul_world :: world where
  "nul_world = \<lparr>files = nul_files, events = []\<rparr>"

text \<open>A tree with a directory that can be listed but not searched.\<close>

definition locked_files :: filesystem where
  "locked_files =
     [([''cumulusci.yml''], plain_file (Text demo_yaml)),
      ([''force-app''], Dir),
      ([''force-app'', ''locked''], Dir),
      ([''force-app'', ''locked'', ''a.txt''], Denied),
      ([''force-app'', ''b.txt''], plain_file (Text ''__PROJECT_NAME__''))]"

definition locked_world :: world where
  "locked_world = \<lparr>files = locked_files, events = []\<rparr>"


section \<open>Properties of the string functions\<close>

lemma str_contains_sublist: "str_contains s sub \<longleftrightarrow> sublist sub s"
  by (induction s) (auto simp: sublist_Cons_right)

lemma overlaps_iff: "overlaps x y \<longleftrightarrow> (\<exists>z. z \<noteq> [] \<and> suffix z x \<and> prefix z y)"
  by (auto simp: overlaps_def list_ex_iff)

lemma fits_iff:
  "fits u new \<longleftrightarrow>
     \<not> sublist u new \<and> \<not> sublist new u \<and> \<not> overlaps u new \<and> \<not> overlaps new u"
  by (simp add: fits_def str_contains_sublist)

lemma replace_scan_absent: "\<not> sublist old s \<Longrightarrow> replace_scan s old new = s"
proof (induction s)
  case Nil
  then show ?case by simp
next
  case (Cons c cs)
  then show ?case by (auto simp: sublist_Cons_right)
qed

text \<open>A piece that ends with no beginning of \<open>new\<close> and does not hold \<open>new\<close> begins the
  result only if it begins the text.\<close>

lemma prefix_replace_scan:
  "\<not> overlaps u new \<Longrightarrow> \<not> sublist new u \<Longrightarrow> prefix u (replace_scan s old new) \<Longrightarrow> prefix u s"
proof (induction s old new arbitrary: u rule: replace_scan.induct)
  case (1 old new)
  then show ?case by simp
next
  case (2 c cs old new)
  show ?case
  proof (cases "prefix old (c # cs)")
    case True
    with "2.prems" have p: "prefix u (new @ replace_scan (drop (length old - 1) cs) old new)"
      by simp
    have "u = []"
    proof (rule ccontr)
      assume ne: "u \<noteq> []"
      from p consider "prefix u new" | "prefix new u"
        by (auto simp: prefix_append)
      then show False
      proof cases
        case 1
        with ne have "overlaps u new" by (auto simp: overlaps_iff)
        with "2.prems"(1) show False by simp
      next
        case 2
        with "2.prems"(2) show False by auto
      qed
    qed
    then show ?thesis by simp
  next
    case False
    with "2.prems" have p: "prefix u (c # replace_scan cs old new)" by simp
    show ?thesis
    proof (cases u)
      case Nil
      then show ?thesis by simp
    next
      case (Cons a u')
      with p have ac: "a = c" "prefix u' (replace_scan cs old new)" by auto
      have "\<not> overlaps u' new"
        using "2.prems"(1) Cons by (auto simp: overlaps_iff intro: suffix_ConsI)
      moreover have "\<not> sublist new u'"
        using "2.prems"(2) Cons by (auto simp: sublist_Cons_right)
      ultimately have "prefix u' cs" using "2.IH"(2)[OF False] ac(2) by blast
      with ac(1) Cons show ?thesis by simp
    qed
  qed
qed

lemma sublist_append_fits:
  assumes "fits u new" "\<not> sublist u x"
  shows "\<not> sublist u (new @ x)"
proof
  assume "sublist u (new @ x)"
  then consider "sublist u new" | "sublist u x"
    | u1 u2 where "u = u1 @ u2" "suffix u1 new" "prefix u2 x"
    by (auto simp: sublist_append)
  then show False
  proof cases
    case 1
    with assms show False by (simp add: fits_iff)
  next
    case 2
    with assms show False by simp
  next
    case 3
    show False
    proof (cases "u1 = []")
      case True
      with 3 have "sublist u x" by auto
      with assms show False by simp
    next
      case False
      with 3(1,2) have "overlaps new u" by (auto simp: overlaps_iff)
      with assms(1) show False by (simp add: fits_iff)
    qed
  qed
qed

lemma replace_scan_keeps_absent:
  "fits u new \<Longrightarrow> \<not> sublist u s \<Longrightarrow> \<not> sublist u (replace_scan s old new)"
proof (induction s old new rule: replace_scan.induct)
  case (1 old new)
  then show ?case by simp
next
  case (2 c cs old new)
  show ?case
  proof (cases "prefix old (c # cs)")
    case True
    have "sublist (drop (length old - 1) cs) (c # cs)"
      by (meson sublist_Cons_right sublist_drop)
    with "2.prems"(2) have "\<not> sublist u (drop (length old - 1) cs)"
      using sublist_order.order_trans by blast
    with "2.IH"(1)[OF True "2.prems"(1)]
    have "\<not> sublist u (replace_scan (drop (length old - 1) cs) old new)" by simp
    with "2.prems"(1) True show ?thesis by (simp add: sublist_append_fits)
  next
    case False
    from "2.prems"(2) have n: "\<not> sublist u cs" "\<not> prefix u (c # cs)"
      by (auto simp: sublist_Cons_right)
    with "2.IH"(2)[OF False "2.prems"(1)] have a: "\<not> sublist u (replace_scan cs old new)" by simp
    have b: "\<not> prefix u (replace_scan (c # cs) old new)"
      using prefix_replace_scan[of u new "c # cs" old] "2.prems"(1) n(2) by (auto simp: fits_iff)
    from a b False show ?thesis by (simp add: sublist_Cons_right)
  qed
qed

lemma replace_scan_removes:
  "fits old new \<Longrightarrow> \<not> sublist old (replace_scan s old new)"
proof (induction s old new rule: replace_scan.induct)
  case (1 old new)
  then show ?case by (auto simp: fits_iff)
next
  case (2 c cs old new)
  show ?case
  proof (cases "prefix old (c # cs)")
    case True
    with "2.IH"(1)[OF True "2.prems"] "2.prems" show ?thesis by (simp add: sublist_append_fits)
  next
    case False
    from "2.IH"(2)[OF False "2.prems"] have a: "\<not> sublist old (replace_scan cs old new)" .
    have b: "\<not> prefix old (replace_scan (c # cs) old new)"
      using prefix_replace_scan[of old new "c # cs" old] "2.prems" False by (auto simp: fits_iff)
    from a b False show ?thesis by (simp add: sublist_Cons_right)
  qed
qed

lemma replace_scan_length:
  "old \<noteq> [] \<Longrightarrow>
   length (replace_scan s old new) + str_count s old * length old
     = length s + str_count s old * length new"
proof (induction s old new rule: replace_scan.induct)
  case (1 old new)
  then show ?case by simp
next
  case (2 c cs old new)
  show ?case
  proof (cases "prefix old (c # cs)")
    case True
    then have "length old \<le> Suc (length cs)" using prefix_length_le by fastforce
    with True "2.IH"(1)[OF True "2.prems"] "2.prems" show ?thesis by (cases old) auto
  next
    case False
    with "2.IH"(2)[OF False "2.prems"] show ?thesis by simp
  qed
qed

section \<open>Properties of the file operations and of the loops\<close>

lemma files_emit [simp]: "files (emit e w) = files w"
  by (simp add: emit_def)

lemma events_emit [simp]: "events (emit e w) = events w @ [e]"
  by (simp add: emit_def)

lemma lookup_node_Nil [simp]: "lookup_node fs [] = Some Dir"
  by (simp add: lookup_node_def)

lemma lookup_node_update:
  "lookup_node (AList.update k v fs) q =
     (if q = [] then Some Dir else if q = k then Some v else lookup_node fs q)"
  by (simp add: lookup_node_def update_conv')

lemma lookup_node_delete:
  "lookup_node (AList.delete k fs) q =
     (if q = [] then Some Dir else if q = k then None else lookup_node fs q)"
  by (simp add: lookup_node_def delete_conv')

lemma is_OSError_oserror [simp]: "is_OSError (oserror e)"
  by (cases e) simp_all


lemma is_OSError_embedded_null [simp]: "\<not> is_OSError embedded_null"
  by (simp add: embedded_null_def)

lemma has_nul_Cons: "has_nul (c # cs) = (CHR 0x00 \<in> set c \<or> has_nul cs)"
  by (simp add: has_nul_def)

lemma walk_nul: "has_nul cs \<Longrightarrow> walk fs cur cs = Inl embedded_null"
  by (cases cs) (simp_all add: has_nul_def)

lemma walk_Inr_no_nul: "walk fs cur cs = Inr d \<Longrightarrow> \<not> has_nul cs"
  using walk_nul[of cs fs cur] by auto

lemma walk_step:
  "\<not> has_nul (c # cs) \<Longrightarrow>
   walk fs cur (c # cs) =
     (if cs = []
      then (if lookup_node fs (if c = ''..'' then butlast cur else cur @ [c]) = Some Denied
            then Inl PermissionError
            else Inr (if c = ''..'' then butlast cur else cur @ [c]))
      else (case lookup_node fs (if c = ''..'' then butlast cur else cur @ [c]) of
              None \<Rightarrow> Inl FileNotFoundError
            | Some (File f) \<Rightarrow> Inl NotADirectoryError
            | Some Denied \<Rightarrow> Inl PermissionError
            | Some Dir \<Rightarrow> walk fs (if c = ''..'' then butlast cur else cur @ [c]) cs))"
  by (simp add: Let_def)

lemma walk_error: "walk fs cur cs = Inl e \<Longrightarrow> \<not> has_nul cs \<Longrightarrow> is_OSError e"
proof (induction cs arbitrary: cur)
  case Nil
  then show ?case by simp
next
  case (Cons c cs)
  define nxt where "nxt = (if c = ''..'' then butlast cur else cur @ [c])"
  from Cons.prems(2) have n: "\<not> has_nul cs" by (simp add: has_nul_Cons)
  note st = walk_step[OF Cons.prems(2), of fs cur, folded nxt_def]
  show ?case
  proof (cases "cs = []")
    case True
    with Cons.prems(1) st show ?thesis by (auto split: if_splits)
  next
    case False
    show ?thesis
    proof (cases "lookup_node fs nxt")
      case None
      with False Cons.prems(1) st show ?thesis by auto
    next
      case (Some nd)
      show ?thesis
      proof (cases nd)
        case (File f)
        with Some False Cons.prems(1) st show ?thesis by auto
      next
        case Dir
        with Some False Cons.prems(1) st have "walk fs nxt cs = Inl e" by simp
        from Cons.IH[OF this n] show ?thesis .
      next
        case Denied
        with Some False Cons.prems(1) st show ?thesis by auto
      qed
    qed
  qed
qed

lemma walk_not_denied:
  "walk fs cur cs = Inr d \<Longrightarrow> cs \<noteq> [] \<Longrightarrow> lookup_node fs d \<noteq> Some Denied"
proof (induction cs arbitrary: cur)
  case Nil
  then show ?case by simp
next
  case (Cons c cs)
  define nxt where "nxt = (if c = ''..'' then butlast cur else cur @ [c])"
  from Cons.prems(1) have nn: "\<not> has_nul (c # cs)" by (rule walk_Inr_no_nul)
  note st = walk_step[OF nn, of fs cur, folded nxt_def]
  show ?case
  proof (cases "cs = []")
    case True
    with Cons.prems(1) st show ?thesis by (auto split: if_splits)
  next
    case False
    show ?thesis
    proof (cases "lookup_node fs nxt")
      case None
      with False Cons.prems(1) st show ?thesis by auto
    next
      case (Some nd)
      show ?thesis
      proof (cases nd)
        case (File f)
        with Some False Cons.prems(1) st show ?thesis by auto
      next
        case Dir
        with Some False Cons.prems(1) st have "walk fs nxt cs = Inr d" by simp
        from Cons.IH[OF this False] show ?thesis .
      next
        case Denied
        with Some False Cons.prems(1) st show ?thesis by auto
      qed
    qed
  qed
qed

lemma fs_rename_nul: "has_nul (parts dst) \<Longrightarrow> fs_rename fs src dst = Inl embedded_null"
  by (simp add: fs_rename_def)

lemma fs_rename_error:
  "fs_rename fs src dst = Inl e \<Longrightarrow> \<not> has_nul (parts dst) \<Longrightarrow> is_OSError e"
  unfolding fs_rename_def
  by (auto dest: walk_error split: option.splits node.splits sum.splits if_splits)

lemma fs_rename_error_cases:
  "fs_rename fs src dst = Inl e \<Longrightarrow> is_OSError e \<or> e = embedded_null"
  using fs_rename_nul[of dst fs src] fs_rename_error[of fs src dst e] by auto

lemma fs_rename_Inr:
  assumes "fs_rename fs src dst = Inr fs'"
  obtains f d where "lookup_node fs src = Some (File f)" "rename_fault f = None"
    "walk fs [] (parts dst) = Inr d"
    "d = src \<Longrightarrow> fs' = fs"
    "d \<noteq> src \<Longrightarrow> lookup_node fs d \<noteq> Some Dir"
    "d \<noteq> src \<Longrightarrow> fs' = AList.update d (File f) (AList.delete src fs)"
proof -
  from assms have nn: "\<not> has_nul (parts dst)"
    unfolding fs_rename_def by (simp split: if_splits)
  with assms obtain f where f: "lookup_node fs src = Some (File f)"
    unfolding fs_rename_def by (simp split: option.splits node.splits)
  with assms nn have rf: "rename_fault f = None"
    unfolding fs_rename_def by (simp split: option.splits)
  with f assms nn obtain d where d: "walk fs [] (parts dst) = Inr d"
    unfolding fs_rename_def by (simp split: sum.splits)
  from f rf d assms nn have r:
    "(if d = src then Inr fs
      else (case lookup_node fs d of Some Dir \<Rightarrow> Inl IsADirectoryError
            | Some Denied \<Rightarrow> Inl PermissionError
            | _ \<Rightarrow> Inr (AList.update d (File f) (AList.delete src fs)))) = Inr fs'"
    unfolding fs_rename_def by simp
  have 1: "d = src \<Longrightarrow> fs' = fs" using r by simp
  have 2: "d \<noteq> src \<Longrightarrow> lookup_node fs d \<noteq> Some Dir" using r by auto
  have 3: "d \<noteq> src \<Longrightarrow> fs' = AList.update d (File f) (AList.delete src fs)"
    using r by (simp split: option.splits node.splits)
  from f rf d 1 2 3 show ?thesis by (rule that)
qed

lemma fs_rename_dirs:
  "fs_rename fs src dst = Inr fs' \<Longrightarrow> lookup_node fs q = Some Dir \<Longrightarrow> lookup_node fs' q = Some Dir"
  by (erule fs_rename_Inr) (cases "q = []"; force simp: lookup_node_update lookup_node_delete)

lemma write_text_Inr:
  "write_text fs p s = Inr fs' \<Longrightarrow>
   (\<exists>f. lookup_node fs p = Some (File f) \<and> write_fault f = None \<and>
        fs' = AList.update p (File (f\<lparr>content := Text s\<rparr>)) fs) \<or>
   (lookup_node fs p = None \<and>
    fs' = AList.update p
      (File \<lparr>ident = fresh_ident fs, content = Text s, read_fault = None, write_fault = None,
             rename_fault = None\<rparr>) fs)"
  by (auto simp: write_text_def split: option.splits node.splits)

lemma write_text_dirs:
  "write_text fs p s = Inr fs' \<Longrightarrow> lookup_node fs q = Some Dir \<Longrightarrow> lookup_node fs' q = Some Dir"
  by (drule write_text_Inr) (auto simp: lookup_node_update)

lemma write_text_other:
  "write_text fs p s = Inr fs' \<Longrightarrow> q \<noteq> p \<Longrightarrow> lookup_node fs' q = lookup_node fs q"
  by (drule write_text_Inr) (auto simp: lookup_node_update)

lemma is_file_not_refused: "is_file fs p \<Longrightarrow> \<not> refused fs p"
  by (auto simp: is_file_def refused_def split: option.splits node.splits)

lemma stat_is_file_simps:
  "refused fs p \<Longrightarrow> stat_is_file fs p = Inl PermissionError"
  "\<not> refused fs p \<Longrightarrow> stat_is_file fs p = Inr (is_file fs p)"
  by (simp_all add: stat_is_file_def)

lemma stat_exists_simps:
  "refused fs p \<Longrightarrow> stat_exists fs p = Inl PermissionError"
  "\<not> refused fs p \<Longrightarrow> stat_exists fs p = Inr (path_exists fs p)"
  by (simp_all add: stat_exists_def)

lemma update_handler_files: "update_handler p e w = (r, w') \<Longrightarrow> files w' = files w"
  by (auto simp: update_handler_def split: if_splits)

lemma update_file_content_read_error:
  "read_text (files w) p = Inl e \<Longrightarrow>
   update_file_content p n l w = update_handler p e (emit (OpenRead p) w)"
  by (simp add: update_file_content_def)

lemma update_file_content_text:
  "read_text (files w) p = Inr s \<Longrightarrow>
   update_file_content p (YStr a) (YStr b) w =
     (let c2 = str_replace (str_replace s tok_name a) tok_label b
      in if c2 \<noteq> s
         then (case write_text (files w) p c2 of
                 Inl e \<Rightarrow> update_handler p e (emit (OpenWrite p) (emit (OpenRead p) w))
               | Inr fs' \<Rightarrow> (Inr True, (emit (OpenWrite p) (emit (OpenRead p) w))\<lparr>files := fs'\<rparr>))
         else (Inr False, emit (OpenRead p) w))"
  by (simp add: update_file_content_def Let_def)

lemma py_replace_Inr: "py_replace s old v = Inr c \<Longrightarrow> \<exists>a. v = YStr a \<and> c = str_replace s old a"
  by (cases v) simp_all

lemma py_replace_Inl: "py_replace s old v = Inl e \<Longrightarrow> e = TypeError"
  by (cases v) simp_all

lemma update_file_content_cases [consumes 1, case_names unchanged written]:
  assumes "update_file_content p n l w = (r, w')"
  obtains "files w' = files w"
  | s c where "read_text (files w) p = Inr s" "r = Inr True"
      "write_text (files w) p c = Inr (files w')"
proof (cases "read_text (files w) p")
  case (Inl e)
  with assms have "update_handler p e (emit (OpenRead p) w) = (r, w')"
    by (simp add: update_file_content_read_error)
  then have "files w' = files w" by (auto dest: update_handler_files)
  then show ?thesis by (rule that(1))
next
  case (Inr s)
  show ?thesis
  proof (cases "py_replace s tok_name n")
    case (Inl e)
    with Inr assms have "update_handler p e (emit (OpenRead p) w) = (r, w')"
      by (simp add: update_file_content_def)
    then have "files w' = files w" by (auto dest: update_handler_files)
    then show ?thesis by (rule that(1))
  next
    case c1: (Inr c1)
    show ?thesis
    proof (cases "py_replace c1 tok_label l")
      case (Inl e)
      with Inr c1 assms have "update_handler p e (emit (OpenRead p) w) = (r, w')"
        by (simp add: update_file_content_def)
      then have "files w' = files w" by (auto dest: update_handler_files)
      then show ?thesis by (rule that(1))
    next
      case c2: (Inr c2)
      show ?thesis
      proof (cases "c2 = s")
        case True
        with Inr c1 c2 assms have "files w' = files w"
          by (auto simp: update_file_content_def)
        then show ?thesis by (rule that(1))
      next
        case False
        show ?thesis
        proof (cases "write_text (files w) p c2")
          case (Inl e)
          with Inr c1 c2 False assms
          have "update_handler p e (emit (OpenWrite p) (emit (OpenRead p) w)) = (r, w')"
            by (simp add: update_file_content_def Let_def)
          then have "files w' = files w" by (auto dest: update_handler_files)
          then show ?thesis by (rule that(1))
        next
          case fs': (Inr fs')
          with Inr c1 c2 False assms have "r = Inr True" "files w' = fs'"
            by (auto simp: update_file_content_def Let_def)
          with Inr fs' show ?thesis by (auto intro: that(2))
        qed
      qed
    qed
  qed
qed

lemma update_file_content_dirs:
  "update_file_content p n l w = (r, w') \<Longrightarrow>
   lookup_node (files w) q = Some Dir \<Longrightarrow> lookup_node (files w') q = Some Dir"
  by (erule update_file_content_cases) (auto dest: write_text_dirs)

lemma rename_file_cases [consumes 1, case_names unchanged renamed]:
  assumes "rename_file p n l w = (r, w')"
  obtains "files w' = files w"
  | a b where "n = YStr a" "l = YStr b"
      "str_replace (str_replace (base_name p) tok_name a) tok_label b \<noteq> base_name p"
      "fs_rename (files w) p
         (path_join (parent p) (str_replace (str_replace (base_name p) tok_name a) tok_label b))
       = Inr (files w')"
      "r = Inr (path_join (parent p) (str_replace (str_replace (base_name p) tok_name a) tok_label b))"
proof (cases "py_replace (base_name p) tok_name n")
  case (Inl e)
  with assms have "files w' = files w" by (auto simp: rename_file_def)
  then show ?thesis by (rule that(1))
next
  case n1: (Inr n1)
  show ?thesis
  proof (cases "py_replace n1 tok_label l")
    case (Inl e)
    with n1 assms have "files w' = files w" by (auto simp: rename_file_def)
    then show ?thesis by (rule that(1))
  next
    case nn: (Inr new_name)
    from n1 obtain a where a: "n = YStr a" "n1 = str_replace (base_name p) tok_name a"
      by (auto dest: py_replace_Inr)
    from nn obtain b where b: "l = YStr b" "new_name = str_replace n1 tok_label b"
      by (auto dest: py_replace_Inr)
    show ?thesis
    proof (cases "new_name = base_name p")
      case True
      with n1 nn assms have "files w' = files w" by (auto simp: rename_file_def)
      then show ?thesis by (rule that(1))
    next
      case False
      show ?thesis
      proof (cases "fs_rename (files w) p (path_join (parent p) new_name)")
        case (Inl e)
        with n1 nn False assms have "files w' = files w"
          by (auto simp: rename_file_def Let_def split: if_splits)
        then show ?thesis by (rule that(1))
      next
        case (Inr fs')
        with n1 nn False assms have "files w' = fs'" "r = Inr (path_join (parent p) new_name)"
          by (auto simp: rename_file_def Let_def)
        with Inr a b False show ?thesis by (auto intro: that(2))
      qed
    qed
  qed
qed

lemma rename_file_dirs:
  "rename_file p n l w = (r, w') \<Longrightarrow>
   lookup_node (files w) q = Some Dir \<Longrightarrow> lookup_node (files w') q = Some Dir"
  by (erule rename_file_cases) (auto dest: fs_rename_dirs)

lemma scan_files_files: "scan_files ps acc w = (r, w') \<Longrightarrow> files w' = files w"
proof (induction ps arbitrary: acc w)
  case Nil
  then show ?case by simp
next
  case (Cons p ps)
  show ?case
  proof (cases "refused (files w) p")
    case True
    with Cons.prems show ?thesis by (simp add: stat_is_file_def)
  next
    case nr: False
    show ?thesis
    proof (cases "is_file (files w) p")
      case False
      with nr Cons show ?thesis by (simp add: stat_is_file_def)
    next
      case True
      show ?thesis
      proof (cases "read_text (files w) p")
        case (Inl e)
        with nr True Cons.prems Cons.IH[of acc "emit (OpenRead p) w"] show ?thesis
          by (auto simp: Let_def stat_is_file_def split: if_splits)
      next
        case (Inr s)
        with nr True Cons.prems Cons.IH[of acc "emit (OpenRead p) w"]
          Cons.IH[of "acc @ [p]" "emit (OpenRead p) w"] show ?thesis
          by (auto simp: Let_def stat_is_file_def split: if_splits)
      qed
    qed
  qed
qed

lemma scan_dirs_files: "scan_dirs ds root acc w = (r, w') \<Longrightarrow> files w' = files w"
proof (induction ds arbitrary: acc w)
  case Nil
  then show ?case by simp
next
  case (Cons d ds)
  show ?case
  proof (cases "refused (files w) (root @ [d])")
    case True
    with Cons.prems show ?thesis by (simp add: stat_exists_def)
  next
    case nr: False
    show ?thesis
    proof (cases "path_exists (files w) (root @ [d])")
      case False
      with nr Cons show ?thesis by (simp add: stat_exists_def)
    next
      case True
      obtain r1 w1 where s: "scan_files (rglob (files w) (root @ [d])) acc w = (r1, w1)"
        by (cases "scan_files (rglob (files w) (root @ [d])) acc w")
      then have f: "files w1 = files w" by (rule scan_files_files)
      show ?thesis
      proof (cases r1)
        case (Inl e)
        with nr True s Cons.prems f show ?thesis by (auto simp: Let_def stat_exists_def)
      next
        case (Inr acc')
        with nr True s Cons.prems have "scan_dirs ds root acc' w1 = (r, w')"
          by (simp add: Let_def stat_exists_def)
        with Cons.IH f show ?thesis by auto
      qed
    qed
  qed
qed

lemma find_files_with_placeholders_files:
  "find_files_with_placeholders root w = (r, w') \<Longrightarrow> files w' = files w"
  unfolding find_files_with_placeholders_def by (rule scan_dirs_files)

lemma load_cumulusci_config_files:
  "load_cumulusci_config y w = (r, w') \<Longrightarrow> files w' = files w"
  by (auto simp: load_cumulusci_config_def Let_def)

lemma load_configuration_files:
  "load_configuration y w = (r, w') \<Longrightarrow> files w' = files w"
  unfolding load_configuration_def
  by (cases "load_cumulusci_config y w")
     (auto dest: load_cumulusci_config_files split: sum.splits)

lemma update_loop_invariant:
  assumes "update_loop ps n l k w = (r, w')" "I (files w)"
    and "\<And>p w r w'. p \<in> set ps \<Longrightarrow> I (files w) \<Longrightarrow>
           update_file_content p n l w = (r, w') \<Longrightarrow> I (files w')"
  shows "I (files w')"
  using assms
proof (induction ps arbitrary: k w)
  case Nil
  then show ?case by simp
next
  case (Cons p ps)
  obtain r1 w1 where u: "update_file_content p n l w = (r1, w1)"
    by (cases "update_file_content p n l w")
  with Cons.prems(2,3) have i1: "I (files w1)" by auto
  have step: "\<And>q w r w'. q \<in> set ps \<Longrightarrow> I (files w) \<Longrightarrow>
           update_file_content q n l w = (r, w') \<Longrightarrow> I (files w')"
    using Cons.prems(3) by (meson list.set_intros(2))
  show ?case
  proof (cases r1)
    case (Inl e)
    with u Cons.prems(1) i1 show ?thesis by simp
  next
    case (Inr changed)
    show ?thesis
    proof (cases changed)
      case True
      with Inr u Cons.prems(1)
      have "update_loop ps n l (Suc k) (emit (Print (UpdatedContent p)) w1) = (r, w')" by simp
      from Cons.IH[OF this _ step] i1 show ?thesis by simp
    next
      case False
      with Inr u Cons.prems(1) have "update_loop ps n l k w1 = (r, w')" by simp
      from Cons.IH[OF this _ step] i1 show ?thesis by simp
    qed
  qed
qed

lemma rename_loop_invariant:
  assumes "rename_loop ps n l k w = (r, w')" "I (files w)"
    and "\<And>p w r w'. p \<in> set ps \<Longrightarrow> I (files w) \<Longrightarrow>
           rename_file p n l w = (r, w') \<Longrightarrow> I (files w')"
  shows "I (files w')"
  using assms
proof (induction ps arbitrary: k w)
  case Nil
  then show ?case by simp
next
  case (Cons p ps)
  obtain r1 w1 where u: "rename_file p n l w = (r1, w1)"
    by (cases "rename_file p n l w")
  with Cons.prems(2,3) have i1: "I (files w1)" by auto
  have step: "\<And>q w r w'. q \<in> set ps \<Longrightarrow> I (files w) \<Longrightarrow>
           rename_file q n l w = (r, w') \<Longrightarrow> I (files w')"
    using Cons.prems(3) by (meson list.set_intros(2))
  show ?case
  proof (cases r1)
    case (Inl e)
    with u Cons.prems(1) i1 show ?thesis by simp
  next
    case (Inr new_path)
    show ?thesis
    proof (cases "new_path \<noteq> PPath False p")
      case True
      with Inr u Cons.prems(1)
      have "rename_loop ps n l (Suc k)
              (emit (Print (Renamed (base_name p) (base_name (parts new_path)))) w1) = (r, w')"
        by simp
      from Cons.IH[OF this _ step] i1 show ?thesis by simp
    next
      case False
      with Inr u Cons.prems(1) have "rename_loop ps n l k w1 = (r, w')" by simp
      from Cons.IH[OF this _ step] i1 show ?thesis by simp
    qed
  qed
qed


section \<open>The scans and the structure of a run\<close>




lemma scan_files_result:
  "scan_files ps acc w = (Inr res, w') \<Longrightarrow> res = acc @ filter (content_match (files w)) ps"
proof (induction ps arbitrary: acc w)
  case Nil
  then show ?case by simp
next
  case (Cons p ps)
  from Cons.prems have nr: "\<not> refused (files w) p"
    by (auto simp: stat_is_file_simps)
  note st = stat_is_file_simps(2)[OF nr]
  show ?case
  proof (cases "is_file (files w) p")
    case False
    with Cons st show ?thesis by (simp add: content_match_def)
  next
    case True
    show ?thesis
    proof (cases "read_text (files w) p")
      case (Inl e)
      with True Cons.prems st have "scan_files ps acc (emit (OpenRead p) w) = (Inr res, w')"
        by (simp add: Let_def split: if_splits)
      from Cons.IH[OF this] Inl show ?thesis by (simp add: content_match_def)
    next
      case (Inr s)
      show ?thesis
      proof (cases "has_placeholder s")
        case hp: True
        with True Inr Cons.prems st
        have "scan_files ps (acc @ [p]) (emit (OpenRead p) w) = (Inr res, w')"
          by (simp add: Let_def)
        from Cons.IH[OF this] True Inr hp show ?thesis by (simp add: content_match_def)
      next
        case hp: False
        with True Inr Cons.prems st
        have "scan_files ps acc (emit (OpenRead p) w) = (Inr res, w')"
          by (simp add: Let_def)
        from Cons.IH[OF this] True Inr hp show ?thesis by (simp add: content_match_def)
      qed
    qed
  qed
qed

lemma scan_files_not_refused:
  "scan_files ps acc w = (Inr res, w') \<Longrightarrow> \<not> list_ex (refused (files w)) ps"
proof (induction ps arbitrary: acc w)
  case Nil
  then show ?case by simp
next
  case (Cons p ps)
  from Cons.prems have nr: "\<not> refused (files w) p"
    by (auto simp: stat_is_file_simps)
  note st = stat_is_file_simps(2)[OF nr]
  have "\<exists>acc' x. files x = files w \<and> scan_files ps acc' x = (Inr res, w')"
  proof (cases "is_file (files w) p")
    case False
    with Cons.prems st show ?thesis by auto
  next
    case True
    show ?thesis
    proof (cases "read_text (files w) p")
      case (Inl e)
      with True Cons.prems st have "scan_files ps acc (emit (OpenRead p) w) = (Inr res, w')"
        by (simp add: Let_def split: if_splits)
      then show ?thesis by (intro exI[of _ acc] exI[of _ "emit (OpenRead p) w"]) simp
    next
      case (Inr s)
      with True Cons.prems st
      have "scan_files ps (acc @ [p]) (emit (OpenRead p) w) = (Inr res, w')
          \<or> scan_files ps acc (emit (OpenRead p) w) = (Inr res, w')"
        by (simp add: Let_def split: if_splits)
      then show ?thesis
      proof
        assume "scan_files ps (acc @ [p]) (emit (OpenRead p) w) = (Inr res, w')"
        then show ?thesis
          by (intro exI[of _ "acc @ [p]"] exI[of _ "emit (OpenRead p) w"]) simp
      next
        assume "scan_files ps acc (emit (OpenRead p) w) = (Inr res, w')"
        then show ?thesis by (intro exI[of _ acc] exI[of _ "emit (OpenRead p) w"]) simp
      qed
    qed
  qed
  then obtain acc' x where x: "files x = files w" "scan_files ps acc' x = (Inr res, w')"
    by blast
  from Cons.IH[OF x(2)] x(1) nr show ?case by simp
qed

lemma scan_dirs_result:
  "scan_dirs ds root acc w = (Inr res, w') \<Longrightarrow>
   res = acc @ concat (map (\<lambda>d. if path_exists (files w) (root @ [d])
                                then filter (content_match (files w)) (rglob (files w) (root @ [d]))
                                else []) ds)"
proof (induction ds arbitrary: acc w)
  case Nil
  then show ?case by simp
next
  case (Cons d ds)
  from Cons.prems have nr: "\<not> refused (files w) (root @ [d])"
    by (auto simp: stat_exists_simps Let_def)
  note st = stat_exists_simps(2)[OF nr]
  show ?case
  proof (cases "path_exists (files w) (root @ [d])")
    case False
    with Cons.prems st have "scan_dirs ds root acc w = (Inr res, w')" by simp
    from Cons.IH[OF this] False show ?thesis by simp
  next
    case True
    obtain r1 w1 where s: "scan_files (rglob (files w) (root @ [d])) acc w = (r1, w1)"
      by (cases "scan_files (rglob (files w) (root @ [d])) acc w")
    then have f: "files w1 = files w" by (rule scan_files_files)
    show ?thesis
    proof (cases r1)
      case (Inl e)
      with True s Cons.prems st show ?thesis by (simp add: Let_def)
    next
      case (Inr acc')
      with True s Cons.prems st have "scan_dirs ds root acc' w1 = (Inr res, w')"
        by (simp add: Let_def)
      from Cons.IH[OF this, unfolded f] scan_files_result[OF s[unfolded Inr]] True
      show ?thesis by simp
    qed
  qed
qed

lemma scan_dirs_not_refused:
  "scan_dirs ds root acc w = (Inr res, w') \<Longrightarrow>
   \<not> list_ex (\<lambda>d. refused (files w) (root @ [d])
                   \<or> (path_exists (files w) (root @ [d])
                       \<and> list_ex (refused (files w)) (rglob (files w) (root @ [d])))) ds"
proof (induction ds arbitrary: acc w)
  case Nil
  then show ?case by simp
next
  case (Cons d ds)
  from Cons.prems have nr: "\<not> refused (files w) (root @ [d])"
    by (auto simp: stat_exists_simps Let_def)
  note st = stat_exists_simps(2)[OF nr]
  show ?case
  proof (cases "path_exists (files w) (root @ [d])")
    case False
    with Cons.prems st have "scan_dirs ds root acc w = (Inr res, w')" by simp
    from Cons.IH[OF this] False nr show ?thesis by simp
  next
    case True
    obtain r1 w1 where s: "scan_files (rglob (files w) (root @ [d])) acc w = (r1, w1)"
      by (cases "scan_files (rglob (files w) (root @ [d])) acc w")
    then have f: "files w1 = files w" by (rule scan_files_files)
    show ?thesis
    proof (cases r1)
      case (Inl e)
      with True s Cons.prems st show ?thesis by (simp add: Let_def)
    next
      case (Inr acc')
      with True s Cons.prems st have "scan_dirs ds root acc' w1 = (Inr res, w')"
        by (simp add: Let_def)
      from Cons.IH[OF this, unfolded f] scan_files_not_refused[OF s[unfolded Inr]] nr
      show ?thesis by simp
    qed
  qed
qed

lemma names_scan_after_scan:
  assumes "find_files_with_placeholders root w = (Inr res, w')"
  shows "names_scan root (files w') = Inr (find_files_with_placeholder_names root (files w))"
proof -
  from find_files_with_placeholders_files[OF assms] have f: "files w' = files w" .
  from scan_dirs_not_refused[OF assms[unfolded find_files_with_placeholders_def]]
  have "\<not> names_scan_refused root (files w)"
    by (simp add: names_scan_refused_def Let_def)
  with f show ?thesis by (simp add: names_scan_def)
qed

lemma rglob_iff: "p \<in> set (rglob fs d) \<longleftrightarrow> strict_prefix d p \<and> p \<in> fst ` set fs"
  by (auto simp: rglob_def)

lemma content_candidate:
  assumes "find_files_with_placeholders [] w = (Inr res, w')" "p \<in> set res"
  shows "in_search_dirs p \<and> content_match (files w) p"
proof -
  from scan_dirs_result[OF assms(1)[unfolded find_files_with_placeholders_def]] assms(2)
  show ?thesis
    by (auto simp: search_dirs_def in_search_dirs_def rglob_iff split: if_splits)
qed

lemma name_candidate:
  assumes "p \<in> set (find_files_with_placeholder_names [] fs)"
  shows "in_search_dirs p \<and> name_match fs p"
  using assms
  by (auto simp: find_files_with_placeholder_names_def search_dirs_def in_search_dirs_def
      rglob_iff name_match_def Let_def split: if_splits)

lemma main_after_config_cases [consumes 1, case_names scan_raises update_raises rename_raises completed]:
  assumes "main_after_config n l w = (r, w')"
  obtains e where "find_files_with_placeholders [] (emit (Print Searching) w) = (Inl e, w')" "r = Inl e"
  | cands w1 e where
      "find_files_with_placeholders [] (emit (Print Searching) w) = (Inr cands, w1)"
      "update_loop cands n l 0
         (emit (Print UpdatingContents)
           (emit (Print (FoundNames (length (find_files_with_placeholder_names [] (files w1)))))
             (emit (Print (FoundContent (length cands))) w1))) = (Inl e, w')"
      "r = Inl e"
  | cands w1 k w5 e where
      "find_files_with_placeholders [] (emit (Print Searching) w) = (Inr cands, w1)"
      "update_loop cands n l 0
         (emit (Print UpdatingContents)
           (emit (Print (FoundNames (length (find_files_with_placeholder_names [] (files w1)))))
             (emit (Print (FoundContent (length cands))) w1))) = (Inr k, w5)"
      "rename_loop (find_files_with_placeholder_names [] (files w1)) n l 0
         (emit (Print RenamingFiles) w5) = (Inl e, w')"
      "r = Inl e"
  | cands w1 k w5 m w6 where
      "find_files_with_placeholders [] (emit (Print Searching) w) = (Inr cands, w1)"
      "update_loop cands n l 0
         (emit (Print UpdatingContents)
           (emit (Print (FoundNames (length (find_files_with_placeholder_names [] (files w1)))))
             (emit (Print (FoundContent (length cands))) w1))) = (Inr k, w5)"
      "rename_loop (find_files_with_placeholder_names [] (files w1)) n l 0
         (emit (Print RenamingFiles) w5) = (Inr m, w6)"
      "r = Inr None" "w' = emit (Print Completed) (emit (Print (Summary k m)) w6)"
proof -
  obtain r1 w1 where s: "find_files_with_placeholders [] (emit (Print Searching) w) = (r1, w1)"
    by (cases "find_files_with_placeholders [] (emit (Print Searching) w)")
  show ?thesis
  proof (cases r1)
    case (Inl e)
    with s assms have "w' = w1" "r = Inl e" by (auto simp: main_after_config_def)
    with s Inl show ?thesis by (auto intro: that(1))
  next
    case (Inr cands)
    from names_scan_after_scan[OF s[unfolded Inr]] find_files_with_placeholders_files[OF s]
    have ns [simp]: "names_scan [] (files w1)
        = Inr (find_files_with_placeholder_names [] (files w1))" by simp
    define w4 where "w4 = emit (Print UpdatingContents)
           (emit (Print (FoundNames (length (find_files_with_placeholder_names [] (files w1)))))
             (emit (Print (FoundContent (length cands))) w1))"
    obtain r2 w5 where u: "update_loop cands n l 0 w4 = (r2, w5)"
      by (cases "update_loop cands n l 0 w4")
    show ?thesis
    proof (cases r2)
      case (Inl e)
      with s Inr u assms have "w' = w5" "r = Inl e"
        by (auto simp: main_after_config_def Let_def w4_def)
      with s Inr u Inl show ?thesis unfolding w4_def by (auto intro: that(2))
    next
      case k: (Inr k)
      obtain r3 w6 where rn: "rename_loop (find_files_with_placeholder_names [] (files w1)) n l 0
         (emit (Print RenamingFiles) w5) = (r3, w6)"
        by (cases "rename_loop (find_files_with_placeholder_names [] (files w1)) n l 0
         (emit (Print RenamingFiles) w5)")
      show ?thesis
      proof (cases r3)
        case (Inl e)
        with s Inr u k rn assms have "w' = w6" "r = Inl e"
          by (auto simp: main_after_config_def Let_def w4_def)
        with s Inr u k rn Inl show ?thesis unfolding w4_def by (auto intro: that(3))
      next
        case m: (Inr m)
        with s Inr u k rn assms
        have "w' = emit (Print Completed) (emit (Print (Summary k m)) w6)" "r = Inr None"
          by (auto simp: main_after_config_def Let_def w4_def)
        with s Inr u k rn m show ?thesis unfolding w4_def by (auto intro: that(4))
      qed
    qed
  qed
qed

lemma main_cases [consumes 1, case_names config_fails loaded]:
  assumes "main y w0 = (r, w')"
  obtains e w1 where "load_configuration y (emit (Print Starting) w0) = (Inl e, w1)"
      "r = Inr (Some 1)" "w' = emit (Print (ErrorLoading e)) w1"
  | n l w1 where "load_configuration y (emit (Print Starting) w0) = (Inr (n, l), w1)"
      "main_after_config n l
         (emit (Print (ProjectLabelLine l)) (emit (Print (ProjectNameLine n)) w1)) = (r, w')"
proof -
  obtain r1 w1 where c: "load_configuration y (emit (Print Starting) w0) = (r1, w1)"
    by (cases "load_configuration y (emit (Print Starting) w0)")
  show ?thesis
  proof (cases r1)
    case (Inl e)
    with c assms show ?thesis by (auto simp: main_def intro: that(1))
  next
    case (Inr v)
    obtain n l where "v = (n, l)" by (cases v)
    with Inr c assms show ?thesis by (auto simp: main_def intro: that(2))
  qed
qed





lemma only_refl [simp]: "only P w w"
  by (simp add: only_def)

lemma only_trans: "only P a b \<Longrightarrow> only P b c \<Longrightarrow> only P a c"
  by (auto simp: only_def)

lemma only_emit: "P e \<Longrightarrow> only P w (emit e w)"
  by (simp add: only_def)

lemma only_emit_left: "P e \<Longrightarrow> only P (emit e w) w' \<Longrightarrow> only P w w'"
  by (auto simp: only_def)

lemma only_emit_right: "P e \<Longrightarrow> only P w w' \<Longrightarrow> only P w (emit e w')"
  by (auto simp: only_def)

lemma only_files_update [simp]: "only P w (w'\<lparr>files := fs\<rparr>) = only P w w'"
  by (simp add: only_def)

lemma only_mono: "only P w w' \<Longrightarrow> (\<And>e. P e \<Longrightarrow> Q e) \<Longrightarrow> only Q w w'"
  by (auto simp: only_def list_all_iff)

lemma update_handler_events:
  "update_handler p e w = (r, w') \<Longrightarrow> only is_print w w'"
  by (auto simp: update_handler_def only_emit split: if_splits)

lemma update_file_content_events:
  assumes "update_file_content p n l w = (r, w')"
  shows "only (\<lambda>e. e = OpenRead p \<or> e = OpenWrite p \<or> is_print e) w w'"
proof -
  let ?P = "\<lambda>e. e = OpenRead p \<or> e = OpenWrite p \<or> is_print e"
  let ?w1 = "emit (OpenRead p) w"
  let ?w2 = "emit (OpenWrite p) ?w1"
  have h1: "\<And>e. update_handler p e ?w1 = (r, w') \<Longrightarrow> only ?P w w'"
    by (rule only_emit_left[of ?P "OpenRead p"], simp)
       (erule only_mono[OF update_handler_events], simp)
  have h2: "\<And>e. update_handler p e ?w2 = (r, w') \<Longrightarrow> only ?P w w'"
    by (rule only_emit_left[of ?P "OpenRead p"], simp,
        rule only_emit_left[of ?P "OpenWrite p"], simp)
       (erule only_mono[OF update_handler_events], simp)
  have w1: "only ?P w ?w1" by (simp add: only_emit)
  have w2: "only ?P w ?w2" by (simp add: only_emit only_emit_right)
  show ?thesis
  proof (cases "read_text (files w) p")
    case (Inl e)
    with assms h1 show ?thesis by (simp add: update_file_content_read_error)
  next
    case (Inr s)
    show ?thesis
    proof (cases "py_replace s tok_name n")
      case (Inl e)
      with Inr assms h1 show ?thesis by (simp add: update_file_content_def)
    next
      case c1: (Inr c1)
      show ?thesis
      proof (cases "py_replace c1 tok_label l")
        case (Inl e)
        with Inr c1 assms h1 show ?thesis by (simp add: update_file_content_def)
      next
        case c2: (Inr c2)
        show ?thesis
        proof (cases "c2 = s")
          case True
          with Inr c1 c2 assms w1 show ?thesis by (auto simp: update_file_content_def)
        next
          case False
          show ?thesis
          proof (cases "write_text (files w) p c2")
            case (Inl e)
            with Inr c1 c2 False assms h2 show ?thesis
              by (simp add: update_file_content_def Let_def)
          next
            case (Inr fs')
            with \<open>read_text (files w) p = Inr s\<close> c1 c2 False assms w2 show ?thesis
              by (auto simp: update_file_content_def Let_def)
          qed
        qed
      qed
    qed
  qed
qed

lemma rename_file_events:
  assumes "rename_file p n l w = (r, w')"
  shows "only (\<lambda>e. (\<exists>d. e = Rename p d) \<or> is_print e) w w'"
proof -
  let ?P = "\<lambda>e. (\<exists>d. e = Rename p d) \<or> is_print e"
  show ?thesis
  proof (cases "py_replace (base_name p) tok_name n")
    case (Inl e)
    with assms show ?thesis by (auto simp: rename_file_def)
  next
    case n1: (Inr n1)
    show ?thesis
    proof (cases "py_replace n1 tok_label l")
      case (Inl e)
      with n1 assms show ?thesis by (auto simp: rename_file_def)
    next
      case nn: (Inr new_name)
      show ?thesis
      proof (cases "new_name = base_name p")
        case True
        with n1 nn assms show ?thesis by (auto simp: rename_file_def)
      next
        case False
        let ?d = "path_join (parent p) new_name"
        have w1: "only ?P w (emit (Rename p ?d) w)" by (simp add: only_emit)
        show ?thesis
        proof (cases "fs_rename (files w) p ?d")
          case (Inl e)
          with n1 nn False assms w1 show ?thesis
            by (auto simp: rename_file_def Let_def only_emit_right split: if_splits)
        next
          case (Inr fs')
          with n1 nn False assms w1 show ?thesis
            by (auto simp: rename_file_def Let_def)
        qed
      qed
    qed
  qed
qed

lemma update_loop_events:
  assumes "update_loop ps n l k w = (r, w')"
    and "\<And>p w r w'. p \<in> set ps \<Longrightarrow> update_file_content p n l w = (r, w') \<Longrightarrow> only P w w'"
    and "\<And>p. P (Print (UpdatedContent p))"
  shows "only P w w'"
  using assms(1,2)
proof (induction ps arbitrary: k w)
  case Nil
  then show ?case by simp
next
  case (Cons p ps)
  obtain r1 w1 where u: "update_file_content p n l w = (r1, w1)"
    by (cases "update_file_content p n l w")
  with Cons.prems(2) have o1: "only P w w1" by auto
  have step: "\<And>q w r w'. q \<in> set ps \<Longrightarrow> update_file_content q n l w = (r, w') \<Longrightarrow> only P w w'"
    using Cons.prems(2) by (meson list.set_intros(2))
  show ?case
  proof (cases r1)
    case (Inl e)
    with u Cons.prems(1) o1 show ?thesis by simp
  next
    case (Inr changed)
    show ?thesis
    proof (cases changed)
      case True
      with Inr u Cons.prems(1)
      have "update_loop ps n l (Suc k) (emit (Print (UpdatedContent p)) w1) = (r, w')" by simp
      from Cons.IH[OF this step] have "only P (emit (Print (UpdatedContent p)) w1) w'" by simp
      with assms(3) have "only P w1 w'" by (auto intro: only_emit_left)
      with o1 show ?thesis by (rule only_trans)
    next
      case False
      with Inr u Cons.prems(1) have "update_loop ps n l k w1 = (r, w')" by simp
      from Cons.IH[OF this step] o1 show ?thesis by (auto intro: only_trans)
    qed
  qed
qed

lemma rename_loop_events:
  assumes "rename_loop ps n l k w = (r, w')"
    and "\<And>p w r w'. p \<in> set ps \<Longrightarrow> rename_file p n l w = (r, w') \<Longrightarrow> only P w w'"
    and "\<And>a b. P (Print (Renamed a b))"
  shows "only P w w'"
  using assms(1,2)
proof (induction ps arbitrary: k w)
  case Nil
  then show ?case by simp
next
  case (Cons p ps)
  obtain r1 w1 where u: "rename_file p n l w = (r1, w1)"
    by (cases "rename_file p n l w")
  with Cons.prems(2) have o1: "only P w w1" by auto
  have step: "\<And>q w r w'. q \<in> set ps \<Longrightarrow> rename_file q n l w = (r, w') \<Longrightarrow> only P w w'"
    using Cons.prems(2) by (meson list.set_intros(2))
  show ?case
  proof (cases r1)
    case (Inl e)
    with u Cons.prems(1) o1 show ?thesis by simp
  next
    case (Inr new_path)
    show ?thesis
    proof (cases "new_path \<noteq> PPath False p")
      case True
      with Inr u Cons.prems(1)
      have "rename_loop ps n l (Suc k)
              (emit (Print (Renamed (base_name p) (base_name (parts new_path)))) w1) = (r, w')"
        by simp
      from Cons.IH[OF this step]
      have "only P (emit (Print (Renamed (base_name p) (base_name (parts new_path)))) w1) w'"
        by simp
      with assms(3) have "only P w1 w'" by (auto intro: only_emit_left)
      with o1 show ?thesis by (rule only_trans)
    next
      case False
      with Inr u Cons.prems(1) have "rename_loop ps n l k w1 = (r, w')" by simp
      from Cons.IH[OF this step] o1 show ?thesis by (auto intro: only_trans)
    qed
  qed
qed

lemma scan_files_events:
  "scan_files ps acc w = (r, w') \<Longrightarrow> only (\<lambda>e. \<exists>q. e = OpenRead q) w w'"
proof (induction ps arbitrary: acc w)
  case Nil
  then show ?case by simp
next
  case (Cons p ps)
  let ?P = "\<lambda>e. \<exists>q. e = OpenRead q"
  have e: "\<And>x. only ?P (emit (OpenRead p) w) x \<Longrightarrow> only ?P w x"
    by (rule only_emit_left[of ?P "OpenRead p"]) auto
  show ?case
  proof (cases "refused (files w) p")
    case True
    with Cons.prems show ?thesis by (simp add: stat_is_file_simps)
  next
    case nr: False
    note st = stat_is_file_simps(2)[OF nr]
    show ?thesis
    proof (cases "is_file (files w) p")
      case False
      with Cons st show ?thesis by simp
    next
      case True
      show ?thesis
      proof (cases "read_text (files w) p")
        case (Inl err)
        show ?thesis
        proof (cases "err = UnicodeDecodeError \<or> err = PermissionError")
          case c: True
          with True Inl Cons.prems st have "scan_files ps acc (emit (OpenRead p) w) = (r, w')"
            by (simp add: Let_def)
          from e[OF Cons.IH[OF this]] show ?thesis .
        next
          case c: False
          with True Inl Cons.prems st have "w' = emit (OpenRead p) w" by (auto simp: Let_def)
          then show ?thesis by (simp add: only_emit)
        qed
      next
        case (Inr s)
        with True Cons.prems st
        have "scan_files ps (acc @ [p]) (emit (OpenRead p) w) = (r, w')
            \<or> scan_files ps acc (emit (OpenRead p) w) = (r, w')"
          by (simp add: Let_def split: if_splits)
        with e Cons.IH show ?thesis by blast
      qed
    qed
  qed
qed

lemma scan_dirs_events:
  "scan_dirs ds root acc w = (r, w') \<Longrightarrow> only (\<lambda>e. \<exists>q. e = OpenRead q) w w'"
proof (induction ds arbitrary: acc w)
  case Nil
  then show ?case by simp
next
  case (Cons d ds)
  show ?case
  proof (cases "refused (files w) (root @ [d])")
    case True
    with Cons.prems show ?thesis by (simp add: stat_exists_simps)
  next
    case nr: False
    note st = stat_exists_simps(2)[OF nr]
    show ?thesis
    proof (cases "path_exists (files w) (root @ [d])")
      case False
      with Cons st show ?thesis by simp
    next
      case True
      obtain r1 w1 where s: "scan_files (rglob (files w) (root @ [d])) acc w = (r1, w1)"
        by (cases "scan_files (rglob (files w) (root @ [d])) acc w")
      then have o: "only (\<lambda>e. \<exists>q. e = OpenRead q) w w1" by (rule scan_files_events)
      show ?thesis
      proof (cases r1)
        case (Inl e)
        with True s Cons.prems o st show ?thesis by (auto simp: Let_def)
      next
        case (Inr acc')
        with True s Cons.prems st have "scan_dirs ds root acc' w1 = (r, w')"
          by (simp add: Let_def)
        from Cons.IH[OF this] o show ?thesis by (auto intro: only_trans)
      qed
    qed
  qed
qed

lemma load_configuration_events:
  "load_configuration y w = (r, w') \<Longrightarrow> w' = emit (OpenRead config_path) w"
  unfolding load_configuration_def load_cumulusci_config_def
  by (auto simp: Let_def split: sum.splits)


lemma is_print_not_rename [simp]: "is_print e \<Longrightarrow> \<not> is_rename e"
  by (cases e) simp_all

lemma is_print_not_access [simp]: "is_print e \<Longrightarrow> \<not> is_access e"
  by (cases e) simp_all

lemma only_emit3:
  "P e1 \<Longrightarrow> P e2 \<Longrightarrow> P e3 \<Longrightarrow> only P (emit e3 (emit e2 (emit e1 w))) w' \<Longrightarrow> only P w w'"
  by (auto simp: only_def)

lemma only_two:
  "only P w wa \<Longrightarrow> only Q wa w' \<Longrightarrow>
   \<exists>A B. events w' = events w @ A @ B \<and> list_all P A \<and> list_all Q B"
  unfolding only_def by (metis append.assoc)

lemma main_after_config_invariant:
  assumes "main_after_config n l w = (r, w')" "I (files w)"
    and su: "\<And>p x r x'. in_search_dirs p \<Longrightarrow> is_file (files w) p \<Longrightarrow> I (files x) \<Longrightarrow>
           update_file_content p n l x = (r, x') \<Longrightarrow> I (files x')"
    and sr: "\<And>p x r x'. in_search_dirs p \<Longrightarrow> name_match (files w) p \<Longrightarrow> I (files x) \<Longrightarrow>
           rename_file p n l x = (r, x') \<Longrightarrow> I (files x')"
  shows "I (files w')"
proof -
  have upd: "\<And>cands w1 x k z. find_files_with_placeholders [] (emit (Print Searching) w) = (Inr cands, w1)
      \<Longrightarrow> files x = files w \<Longrightarrow> update_loop cands n l k x = (r, z) \<Longrightarrow> I (files z)" for r
  proof -
    fix cands w1 x k z r
    assume s: "find_files_with_placeholders [] (emit (Print Searching) w) = (Inr cands, w1)"
      and f: "files x = files w" and u: "update_loop cands n l k x = (r, z)"
    have c: "\<And>p. p \<in> set cands \<Longrightarrow> in_search_dirs p \<and> is_file (files w) p"
      using content_candidate[OF s] by (auto simp: content_match_def)
    show "I (files z)"
    proof (rule update_loop_invariant[where I = I, OF u])
      show "I (files x)" using f assms(2) by simp
    next
      fix p w r w'
      assume "p \<in> set cands" "I (files w)" "update_file_content p n l w = (r, w')"
      then show "I (files w')" using c su by blast
    qed
  qed
  have ren: "\<And>x k z. I (files x) \<Longrightarrow>
      rename_loop (find_files_with_placeholder_names [] (files w)) n l k x = (r, z) \<Longrightarrow> I (files z)" for r
  proof -
    fix x k z r
    assume i: "I (files x)"
      and u: "rename_loop (find_files_with_placeholder_names [] (files w)) n l k x = (r, z)"
    show "I (files z)"
    proof (rule rename_loop_invariant[where I = I, OF u i])
      fix p y r y'
      assume "p \<in> set (find_files_with_placeholder_names [] (files w))" "I (files y)"
        "rename_file p n l y = (r, y')"
      then show "I (files y')" using name_candidate sr by blast
    qed
  qed
  from assms(1) show ?thesis
  proof (cases rule: main_after_config_cases)
    case (scan_raises e)
    from find_files_with_placeholders_files[OF scan_raises(1)] assms(2) show ?thesis by simp
  next
    case (update_raises cands w1 e)
    from find_files_with_placeholders_files[OF update_raises(1)]
    show ?thesis by (intro upd[OF update_raises(1) _ update_raises(2)]) simp
  next
    case (rename_raises cands w1 k w5 e)
    from find_files_with_placeholders_files[OF rename_raises(1)]
    have f1: "files w1 = files w" by simp
    then have "I (files w5)" by (intro upd[OF rename_raises(1) _ rename_raises(2)]) simp
    then show ?thesis by (intro ren[OF _ rename_raises(3)[unfolded f1]]) simp
  next
    case (completed cands w1 k w5 m w6)
    from find_files_with_placeholders_files[OF completed(1)]
    have f1: "files w1 = files w" by simp
    then have "I (files w5)" by (intro upd[OF completed(1) _ completed(2)]) simp
    then have "I (files w6)" by (intro ren[OF _ completed(3)[unfolded f1]]) simp
    with completed(5) show ?thesis by simp
  qed
qed

lemma main_invariant:
  assumes "main y w = (r, w')" "I (files w)"
    and "\<And>n l p w r w'. in_search_dirs p \<Longrightarrow> I (files w) \<Longrightarrow>
           update_file_content p n l w = (r, w') \<Longrightarrow> I (files w')"
    and "\<And>n l p w r w'. in_search_dirs p \<Longrightarrow> I (files w) \<Longrightarrow>
           rename_file p n l w = (r, w') \<Longrightarrow> I (files w')"
  shows "I (files w')"
  using assms(1)
proof (cases rule: main_cases)
  case (config_fails e w1)
  from load_configuration_files[OF config_fails(1)] assms(2) config_fails(3) show ?thesis by simp
next
  case (loaded n l w1)
  from load_configuration_files[OF loaded(1)] assms(2)
  have "I (files (emit (Print (ProjectLabelLine l)) (emit (Print (ProjectNameLine n)) w1)))"
    by simp
  from main_after_config_invariant[of n l _ r w' I, OF loaded(2) this] assms(3,4)
  show ?thesis by blast
qed

lemma main_dirs:
  assumes "lookup_node (files w) p = Some Dir"
  shows "lookup_node (files (snd (main y w))) p = Some Dir"
proof -
  obtain r w' where m: "main y w = (r, w')" by (cases "main y w")
  have "lookup_node (files w') p = Some Dir"
    by (rule main_invariant[OF m, where I = "\<lambda>fs. lookup_node fs p = Some Dir"])
       (use assms in \<open>auto dest: update_file_content_dirs rename_file_dirs\<close>)
  with m show ?thesis by simp
qed

lemma main_after_config_events:
  assumes "main_after_config n l w = (r, w')"
  shows "\<exists>A B. events w' = events w @ A @ B \<and> list_all (\<lambda>e. \<not> is_rename e) A \<and>
    list_all (\<lambda>e. (\<exists>p d. e = Rename p d \<and> p \<in> set (find_files_with_placeholder_names [] (files w)))
                   \<or> is_print e) B"
proof -
  let ?A = "\<lambda>e. \<not> is_rename e"
  let ?B = "\<lambda>e. (\<exists>p d. e = Rename p d \<and> p \<in> set (find_files_with_placeholder_names [] (files w)))
                   \<or> is_print e"
  have scan: "\<And>c w1. find_files_with_placeholders [] (emit (Print Searching) w) = (c, w1)
     \<Longrightarrow> only ?A w w1"
    unfolding find_files_with_placeholders_def
    by (rule only_emit_left[of ?A "Print Searching"], simp)
       (drule scan_dirs_events, erule only_mono, auto)
  have upd: "\<And>c k x y z. update_loop c n l k x = (y, z) \<Longrightarrow> only ?A x z"
    by (erule update_loop_events) (auto dest!: update_file_content_events elim!: only_mono)
  have ren: "\<And>k x y z. rename_loop (find_files_with_placeholder_names [] (files w)) n l k x = (y, z)
     \<Longrightarrow> only ?B x z"
    by (erule rename_loop_events) (auto dest!: rename_file_events elim!: only_mono)
  from assms show ?thesis
  proof (cases rule: main_after_config_cases)
    case (scan_raises e)
    from only_two[OF scan[OF scan_raises(1)] only_refl[of ?B w']] show ?thesis .
  next
    case (update_raises cands w1 e)
    have "only ?A w1 w'"
      by (rule only_emit3[OF _ _ _ upd[OF update_raises(2)]]) simp_all
    with scan[OF update_raises(1)] have "only ?A w w'" by (rule only_trans)
    from only_two[OF this only_refl[of ?B w']] show ?thesis .
  next
    case (rename_raises cands w1 k w5 e)
    have f: "files w1 = files w"
      using find_files_with_placeholders_files[OF rename_raises(1)] by simp
    have "only ?A w1 w5"
      by (rule only_emit3[OF _ _ _ upd[OF rename_raises(2)]]) simp_all
    with scan[OF rename_raises(1)] have a: "only ?A w w5" by (rule only_trans)
    have "only ?B w5 w'"
      by (rule only_emit_left[of ?B "Print RenamingFiles"], simp)
         (rule ren[OF rename_raises(3)[unfolded f]])
    from only_two[OF a this] show ?thesis .
  next
    case (completed cands w1 k w5 m w6)
    have f: "files w1 = files w"
      using find_files_with_placeholders_files[OF completed(1)] by simp
    have "only ?A w1 w5"
      by (rule only_emit3[OF _ _ _ upd[OF completed(2)]]) simp_all
    with scan[OF completed(1)] have a: "only ?A w w5" by (rule only_trans)
    have "only ?B w5 w6"
      by (rule only_emit_left[of ?B "Print RenamingFiles"], simp)
         (rule ren[OF completed(3)[unfolded f]])
    then have "only ?B w5 w'" unfolding completed(5)
      by (simp add: only_emit_right)
    from only_two[OF a this] show ?thesis .
  qed
qed

lemma main_events:
  assumes "main y w = (r, w')"
  shows "\<exists>A B. events w' = events w @ A @ B \<and> list_all (\<lambda>e. \<not> is_rename e) A \<and>
    list_all (\<lambda>e. (\<exists>p d. e = Rename p d \<and> p \<in> set (find_files_with_placeholder_names [] (files w)))
                   \<or> is_print e) B"
  using assms
proof (cases rule: main_cases)
  case (config_fails e w1)
  from load_configuration_events[OF config_fails(1)] config_fails(3)
  have "events w' = events w @ [Print Starting, OpenRead config_path, Print (ErrorLoading e)] @ []"
    by simp
  then show ?thesis
    by (intro exI[of _ "[Print Starting, OpenRead config_path, Print (ErrorLoading e)]"]
        exI[of _ "[]"]) simp
next
  case (loaded n l w1)
  let ?w = "emit (Print (ProjectLabelLine l)) (emit (Print (ProjectNameLine n)) w1)"
  from load_configuration_events[OF loaded(1)]
  have e: "events ?w = events w @ [Print Starting, OpenRead config_path,
      Print (ProjectNameLine n), Print (ProjectLabelLine l)]" and f: "files ?w = files w"
    by simp_all
  from main_after_config_events[OF loaded(2)] obtain A B where
    ab: "events w' = events ?w @ A @ B" "list_all (\<lambda>e. \<not> is_rename e) A"
    "list_all (\<lambda>e. (\<exists>p d. e = Rename p d \<and> p \<in> set (find_files_with_placeholder_names [] (files ?w)))
                   \<or> is_print e) B"
    by blast
  from ab(1) e have "events w' = events w @ ([Print Starting, OpenRead config_path,
      Print (ProjectNameLine n), Print (ProjectLabelLine l)] @ A) @ B" by simp
  moreover from ab(2) have "list_all (\<lambda>e. \<not> is_rename e) ([Print Starting, OpenRead config_path,
      Print (ProjectNameLine n), Print (ProjectLabelLine l)] @ A)" by simp
  ultimately show ?thesis using ab(3) unfolding f by blast
qed

lemma renames_last_append:
  "list_all (\<lambda>e. \<not> is_rename e) A \<Longrightarrow> list_all (\<lambda>e. \<not> is_access e) B \<Longrightarrow> renames_last (A @ B)"
proof (induction A)
  case Nil
  then show ?case by (induction B) auto
next
  case (Cons a A)
  then show ?case by simp
qed


section \<open>Which errors end a run\<close>

lemma load_configuration_fst:
  "fst (load_configuration y w) = configuration y (files w)"
  by (simp add: configuration_def load_configuration_def load_cumulusci_config_def Let_def
      split: sum.splits)

lemma lookup_node_FileD: "lookup_node fs p = Some (File f) \<Longrightarrow> (p, File f) \<in> set fs"
  by (auto simp: lookup_node_def dest: map_of_SomeD split: if_splits)

lemma lookup_node_DeniedD: "lookup_node fs p = Some Denied \<Longrightarrow> (p, Denied) \<in> set fs"
  by (auto simp: lookup_node_def dest: map_of_SomeD split: if_splits)

lemma benign_faultsD:
  "benign_faults fs \<Longrightarrow> in_search_dirs p \<Longrightarrow> lookup_node fs p = Some (File f) \<Longrightarrow>
   permission_or_none (read_fault f) \<and> permission_or_none (write_fault f)"
  by (drule lookup_node_FileD) (auto simp: benign_faults_def list_all_iff)

lemma searchableD: "searchable fs \<Longrightarrow> under_search_dirs p \<Longrightarrow> \<not> refused fs p"
  by (auto simp: searchable_def refused_def list_all_iff dest!: lookup_node_DeniedD)

lemma in_search_dirs_under: "in_search_dirs p \<Longrightarrow> under_search_dirs p"
  by (auto simp: in_search_dirs_def under_search_dirs_def list_ex_iff strict_prefix_def)

lemma list_all_update:
  "list_all P fs \<Longrightarrow> P (k, v) \<Longrightarrow> list_all P (AList.update k v fs)"
  by (induction fs) auto

lemma list_all_delete: "list_all P fs \<Longrightarrow> list_all P (AList.delete k fs)"
  by (auto simp: AList.delete_eq list_all_iff)

lemma read_text_benign:
  assumes "benign_faults fs" "in_search_dirs p" "is_file fs p" "read_text fs p = Inl e"
  shows "e = UnicodeDecodeError \<or> e = PermissionError"
proof -
  from assms(3) obtain f where f: "lookup_node fs p = Some (File f)"
    by (auto simp: is_file_def split: option.splits node.splits)
  from benign_faultsD[OF assms(1,2) f] f assms(4) show ?thesis
    by (auto simp: read_text_def permission_or_none_def split: option.splits fcontent.splits)
qed

lemma write_text_benign_error:
  assumes "benign_faults fs" "in_search_dirs p" "is_file fs p" "write_text fs p c = Inl e"
  shows "e = PermissionError"
proof -
  from assms(3) obtain f where f: "lookup_node fs p = Some (File f)"
    by (auto simp: is_file_def split: option.splits node.splits)
  from benign_faultsD[OF assms(1,2) f] f assms(4) show ?thesis
    by (auto simp: write_text_def permission_or_none_def split: option.splits)
qed

lemma write_text_benign:
  assumes "benign_faults fs" "in_search_dirs p" "write_text fs p c = Inr fs'"
  shows "benign_faults fs'"
proof -
  from write_text_Inr[OF assms(3)] show ?thesis
  proof
    assume "\<exists>f. lookup_node fs p = Some (File f) \<and> write_fault f = None \<and>
        fs' = AList.update p (File (f\<lparr>content := Text c\<rparr>)) fs"
    then obtain f where f: "lookup_node fs p = Some (File f)"
      "fs' = AList.update p (File (f\<lparr>content := Text c\<rparr>)) fs" by blast
    from benign_faultsD[OF assms(1,2) f(1)] assms(1) show ?thesis
      unfolding f(2) benign_faults_def by (intro list_all_update) simp_all
  next
    assume "lookup_node fs p = None \<and>
      fs' = AList.update p
        (File \<lparr>ident = fresh_ident fs, content = Text c, read_fault = None, write_fault = None,
               rename_fault = None\<rparr>) fs"
    with assms(1) show ?thesis
      unfolding benign_faults_def
      by (auto intro!: list_all_update simp: permission_or_none_def)
  qed
qed

lemma write_text_is_file:
  "write_text fs p c = Inr fs' \<Longrightarrow> is_file fs q \<Longrightarrow> is_file fs' q"
  by (drule write_text_Inr) (auto simp: is_file_def lookup_node_update split: if_splits)

lemma update_file_content_benign:
  "update_file_content p n l w = (r, w') \<Longrightarrow> in_search_dirs p \<Longrightarrow>
   benign_faults (files w) \<Longrightarrow> benign_faults (files w')"
  by (erule update_file_content_cases) (auto dest: write_text_benign)

lemma update_file_content_is_file:
  "update_file_content p n l w = (r, w') \<Longrightarrow> is_file (files w) q \<Longrightarrow> is_file (files w') q"
  by (erule update_file_content_cases) (auto dest: write_text_is_file)

lemma update_file_content_no_raise:
  assumes "benign_faults (files w)" "in_search_dirs p" "is_file (files w) p"
  shows "\<exists>b w'. update_file_content p (YStr a) (YStr c) w = (Inr b, w')"
proof (cases "read_text (files w) p")
  case (Inl e)
  with read_text_benign[OF assms Inl] show ?thesis
    by (auto simp: update_file_content_read_error update_handler_def)
next
  case (Inr s)
  let ?c = "str_replace (str_replace s tok_name a) tok_label c"
  show ?thesis
  proof (cases "?c = s")
    case True
    with Inr show ?thesis by (auto simp: update_file_content_text)
  next
    case False
    show ?thesis
    proof (cases "write_text (files w) p ?c")
      case (Inl e)
      with write_text_benign_error[OF assms Inl] Inr False show ?thesis
        by (auto simp: update_file_content_text update_handler_def)
    next
      case (Inr fs')
      with \<open>read_text (files w) p = Inr s\<close> False show ?thesis
        by (auto simp: update_file_content_text)
    qed
  qed
qed

lemma set_replace_scan: "set (replace_scan s old new) \<subseteq> set s \<union> set new"
proof (induction s old new rule: replace_scan.induct)
  case (1 old new)
  then show ?case by simp
next
  case (2 c cs old new)
  show ?case
  proof (cases "prefix old (c # cs)")
    case True
    with 2 have "set (replace_scan (drop (length old - 1) cs) old new)
        \<subseteq> set (drop (length old - 1) cs) \<union> set new" by simp
    moreover have "set (drop (length old - 1) cs) \<subseteq> set cs" by (rule set_drop_subset)
    ultimately show ?thesis using True by auto
  next
    case False
    with 2 show ?thesis by auto
  qed
qed

lemma set_rewritten: "set (rewritten s a b) \<subseteq> set s \<union> set a \<union> set b"
proof -
  have "set (rewritten s a b) \<subseteq> set (replace_scan s tok_name a) \<union> set b"
    using set_replace_scan[of "replace_scan s tok_name a" tok_label b]
    by (simp add: rewritten_def str_replace_def tok_name_def tok_label_def)
  with set_replace_scan[of s tok_name a] show ?thesis by blast
qed

lemma set_split_sep: "x \<in> set (split_sep c s) \<Longrightarrow> set x \<subseteq> set s"
proof (induction s arbitrary: x)
  case Nil
  then show ?case by simp
next
  case (Cons a s)
  show ?case
  proof (cases "a = c")
    case True
    with Cons show ?thesis by auto
  next
    case False
    show ?thesis
    proof (cases "split_sep c s")
      case Nil
      with False Cons.prems show ?thesis by simp
    next
      case (Cons y ys)
      with False Cons.prems have "x = a # y \<or> x \<in> set ys" by simp
      with Cons Cons.IH[of y] Cons.IH[of x] show ?thesis by auto
    qed
  qed
qed

lemma has_nul_append: "has_nul (xs @ ys) = (has_nul xs \<or> has_nul ys)"
  by (simp add: has_nul_def)

lemma has_nul_iff: "has_nul cs \<longleftrightarrow> (\<exists>c\<in>set cs. CHR 0x00 \<in> set c)"
  by (simp add: has_nul_def list_ex_iff)

lemma path_join_no_nul:
  assumes "\<not> has_nul d" "CHR 0x00 \<notin> set new_name"
  shows "\<not> has_nul (parts (path_join d new_name))"
proof -
  have "\<not> has_nul (filter (\<lambda>s. s \<noteq> [] \<and> s \<noteq> ''.'') (split_sep CHR ''/'' new_name))"
    using assms(2) set_split_sep[of _ "CHR ''/''" new_name] by (auto simp: has_nul_iff)
  with assms(1) show ?thesis by (simp add: path_join_def Let_def has_nul_append)
qed

lemma has_nul_parent: "\<not> has_nul p \<Longrightarrow> \<not> has_nul (parent p) \<and> CHR 0x00 \<notin> set (base_name p)"
  by (cases p rule: rev_cases) (auto simp: parent_def base_name_def has_nul_iff)

lemma rename_target_no_nul:
  assumes "\<not> has_nul p" "CHR 0x00 \<notin> set a" "CHR 0x00 \<notin> set c"
  shows "\<not> has_nul (parts (path_join (parent p) (rewritten (base_name p) a c)))"
proof -
  from has_nul_parent[OF assms(1)] set_rewritten[of "base_name p" a c] assms(2,3)
  have "\<not> has_nul (parent p)" "CHR 0x00 \<notin> set (rewritten (base_name p) a c)" by auto
  then show ?thesis by (rule path_join_no_nul)
qed

lemma rename_file_no_raise:
  assumes "\<not> has_nul p" "CHR 0x00 \<notin> set a" "CHR 0x00 \<notin> set c"
  shows "\<exists>d w'. rename_file p (YStr a) (YStr c) w = (Inr d, w')"
proof -
  let ?n = "str_replace (str_replace (base_name p) tok_name a) tok_label c"
  have nn: "\<not> has_nul (parts (path_join (parent p) ?n))"
    using rename_target_no_nul[OF assms] by (simp add: rewritten_def)
  show ?thesis
  proof (cases "?n = base_name p")
    case True
    then show ?thesis by (simp add: rename_file_def)
  next
    case False
    show ?thesis
    proof (cases "fs_rename (files w) p (path_join (parent p) ?n)")
      case (Inl e)
      with fs_rename_error[OF Inl nn] False show ?thesis by (simp add: rename_file_def Let_def)
    next
      case (Inr fs')
      with False show ?thesis by (simp add: rename_file_def Let_def)
    qed
  qed
qed

lemma update_loop_no_raise:
  assumes "J (files w)"
    and "\<And>p w. p \<in> set ps \<Longrightarrow> J (files w) \<Longrightarrow>
           \<exists>b w'. update_file_content p n l w = (Inr b, w') \<and> J (files w')"
  shows "\<exists>k' w'. update_loop ps n l k w = (Inr k', w')"
  using assms
proof (induction ps arbitrary: k w)
  case Nil
  then show ?case by simp
next
  case (Cons p ps)
  from Cons.prems(2)[of p w] Cons.prems(1) obtain b w1 where
    u: "update_file_content p n l w = (Inr b, w1)" and j: "J (files w1)" by auto
  have step: "\<And>q w. q \<in> set ps \<Longrightarrow> J (files w) \<Longrightarrow>
           \<exists>b w'. update_file_content q n l w = (Inr b, w') \<and> J (files w')"
    using Cons.prems(2) by (meson list.set_intros(2))
  show ?case
  proof (cases b)
    case True
    from Cons.IH[of "emit (Print (UpdatedContent p)) w1" "Suc k", OF _ step] j u True
    show ?thesis by simp
  next
    case False
    from Cons.IH[of w1 k, OF j step] u False show ?thesis by simp
  qed
qed

lemma rename_loop_no_raise:
  assumes "\<forall>p\<in>set ps. \<not> has_nul p" "CHR 0x00 \<notin> set a" "CHR 0x00 \<notin> set c"
  shows "\<exists>k' w'. rename_loop ps (YStr a) (YStr c) k w = (Inr k', w')"
  using assms(1)
proof (induction ps arbitrary: k w)
  case Nil
  then show ?case by simp
next
  case (Cons p ps)
  from Cons.prems have np: "\<not> has_nul p" and rest: "\<forall>p\<in>set ps. \<not> has_nul p" by simp_all
  from rename_file_no_raise[OF np assms(2,3), of w] obtain d w1 where
    u: "rename_file p (YStr a) (YStr c) w = (Inr d, w1)" by blast
  show ?case
  proof (cases "d \<noteq> PPath False p")
    case True
    from Cons.IH[OF rest, of "Suc k"
        "emit (Print (Renamed (base_name p) (base_name (parts d)))) w1"] u True
    show ?thesis by simp
  next
    case False
    from Cons.IH[OF rest, of k w1] u False show ?thesis by simp
  qed
qed

lemma scan_files_no_raise:
  assumes "benign_faults (files w)" "\<forall>p\<in>set ps. in_search_dirs p \<and> \<not> refused (files w) p"
  shows "\<exists>res w'. scan_files ps acc w = (Inr res, w')"
  using assms
proof (induction ps arbitrary: acc w)
  case Nil
  then show ?case by simp
next
  case (Cons p ps)
  from Cons.prems(2) have nr: "\<not> refused (files w) p" and ip: "in_search_dirs p" by simp_all
  note st = stat_is_file_simps(2)[OF nr]
  have rest: "\<forall>p\<in>set ps. in_search_dirs p \<and> \<not> refused (files (emit (OpenRead q) w)) p" for q
    using Cons.prems(2) by simp
  have rest0: "\<forall>p\<in>set ps. in_search_dirs p \<and> \<not> refused (files w) p"
    using Cons.prems(2) by simp
  show ?case
  proof (cases "is_file (files w) p")
    case False
    with Cons.IH[OF Cons.prems(1) rest0, of acc] st show ?thesis by simp
  next
    case True
    have b: "benign_faults (files (emit (OpenRead p) w))" using Cons.prems by simp
    show ?thesis
    proof (cases "read_text (files w) p")
      case (Inl e)
      from read_text_benign[OF Cons.prems(1) ip True Inl] Inl True st
        Cons.IH[OF b rest, of acc] show ?thesis
        by (auto simp: Let_def)
    next
      case (Inr s)
      with True st Cons.IH[OF b rest, of acc] Cons.IH[OF b rest, of "acc @ [p]"] show ?thesis
        by (auto simp: Let_def)
    qed
  qed
qed

lemma rglob_in_search_dirs: "d \<in> set search_dirs \<Longrightarrow> p \<in> set (rglob fs [d]) \<Longrightarrow> in_search_dirs p"
  by (auto simp: rglob_def in_search_dirs_def list_ex_iff)

lemma scan_dirs_no_raise:
  assumes "benign_faults (files w)" "searchable (files w)" "set ds \<subseteq> set search_dirs"
  shows "\<exists>res w'. scan_dirs ds [] acc w = (Inr res, w')"
  using assms
proof (induction ds arbitrary: acc w)
  case Nil
  then show ?case by simp
next
  case (Cons d ds)
  from Cons.prems(3) have d: "d \<in> set search_dirs" and ds: "set ds \<subseteq> set search_dirs"
    by simp_all
  from d have "under_search_dirs [d]" by (auto simp: under_search_dirs_def list_ex_iff)
  from searchableD[OF Cons.prems(2) this] have nr: "\<not> refused (files w) [d]" .
  note st = stat_exists_simps(2)[OF nr]
  show ?case
  proof (cases "path_exists (files w) [d]")
    case False
    with Cons.IH[OF Cons.prems(1,2) ds, of acc] st show ?thesis by simp
  next
    case True
    have "\<forall>p\<in>set (rglob (files w) [d]). in_search_dirs p \<and> \<not> refused (files w) p"
      using rglob_in_search_dirs[OF d] searchableD[OF Cons.prems(2)] in_search_dirs_under
      by blast
    from scan_files_no_raise[OF Cons.prems(1) this, of acc]
    obtain res w1 where s: "scan_files (rglob (files w) [d]) acc w = (Inr res, w1)"
      by blast
    from scan_files_files[OF s] Cons.prems
    have "benign_faults (files w1)" "searchable (files w1)" by simp_all
    from Cons.IH[OF this ds, of res] s True st show ?thesis by (simp add: Let_def)
  qed
qed

lemma names_without_nulD:
  "names_without_nul fs \<Longrightarrow> in_search_dirs p \<Longrightarrow> is_file fs p \<Longrightarrow> \<not> has_nul p"
  by (auto simp: names_without_nul_def is_file_def list_all_iff
      dest!: lookup_node_FileD split: option.splits node.splits)

lemma main_after_config_completes:
  assumes "benign_faults (files w)" "searchable (files w)" "names_without_nul (files w)"
    and "CHR 0x00 \<notin> set a" "CHR 0x00 \<notin> set c"
  shows "fst (main_after_config (YStr a) (YStr c) w) = Inr None"
proof -
  from scan_dirs_no_raise[of "emit (Print Searching) w" search_dirs "[]"] assms(1,2)
  obtain cands w1 where
    s: "find_files_with_placeholders [] (emit (Print Searching) w) = (Inr cands, w1)"
    by (auto simp: find_files_with_placeholders_def)
  from find_files_with_placeholders_files[OF s] have f1: "files w1 = files w" by simp
  from names_scan_after_scan[OF s] f1
  have ns: "names_scan [] (files w1) = Inr (find_files_with_placeholder_names [] (files w1))"
    by simp
  let ?J = "\<lambda>fs. benign_faults fs \<and> (\<forall>p\<in>set cands. is_file fs p)"
  let ?w4 = "emit (Print UpdatingContents)
           (emit (Print (FoundNames (length (find_files_with_placeholder_names [] (files w1)))))
             (emit (Print (FoundContent (length cands))) w1))"
  have c: "\<And>p. p \<in> set cands \<Longrightarrow> in_search_dirs p \<and> is_file (files w) p"
    using content_candidate[OF s] by (auto simp: content_match_def)
  have j: "?J (files ?w4)"
    using assms(1) f1 c by auto
  have "\<exists>k w5. update_loop cands (YStr a) (YStr c) 0 ?w4 = (Inr k, w5)"
  proof (rule update_loop_no_raise[where J = ?J, OF j])
    fix p and x :: world
    assume p: "p \<in> set cands" and jw: "?J (files x)"
    from c[OF p] have ip: "in_search_dirs p" by simp
    from update_file_content_no_raise[of x p a c] p jw ip obtain b x' where
      u: "update_file_content p (YStr a) (YStr c) x = (Inr b, x')" by blast
    from update_file_content_benign[OF u ip] update_file_content_is_file[OF u] jw
    have "?J (files x')" by blast
    with u show "\<exists>b w'. update_file_content p (YStr a) (YStr c) x = (Inr b, w') \<and> ?J (files w')"
      by blast
  qed
  then obtain k w5 where u: "update_loop cands (YStr a) (YStr c) 0 ?w4 = (Inr k, w5)" by blast
  have "\<forall>p\<in>set (find_files_with_placeholder_names [] (files w1)). \<not> has_nul p"
    using name_candidate[of _ "files w"] names_without_nulD[OF assms(3)] f1
    by (auto simp: name_match_def)
  from rename_loop_no_raise[OF this assms(4,5), of 0 "emit (Print RenamingFiles) w5"]
  obtain m w6 where r: "rename_loop (find_files_with_placeholder_names [] (files w1))
      (YStr a) (YStr c) 0 (emit (Print RenamingFiles) w5) = (Inr m, w6)" by blast
  from s ns u r show ?thesis by (simp add: main_after_config_def Let_def)
qed

section \<open>The configuration loader\<close>

lemma subscript_Inr: "subscript v k = Inr x \<longleftrightarrow> field_at v [k] = Some x"
  by (cases v) (auto split: option.splits)

lemma subscript_KeyError: "subscript v k = Inl KeyError \<longleftrightarrow> lacks_key v [k]"
  by (cases v) (auto split: option.splits)

lemma subscript_error: "subscript v k = Inl e \<Longrightarrow> e = KeyError \<or> e = TypeError"
  by (cases v) (auto split: option.splits)

lemma field_at_Cons:
  "field_at v (k # ks) = (case subscript v k of Inl e \<Rightarrow> None | Inr x \<Rightarrow> field_at x ks)"
  by (cases v) (auto split: option.splits)

lemma lacks_key_Cons:
  "lacks_key v (k # ks) =
     (case subscript v k of Inl e \<Rightarrow> e = KeyError | Inr x \<Rightarrow> lacks_key x ks)"
  by (cases v) (auto split: option.splits)

lemma lookup3_Inr: "lookup3 c a b d = Inr v \<longleftrightarrow> field_at c [a, b, d] = Some v"
  unfolding lookup3_def field_at_Cons
  by (auto split: sum.splits)

lemma lookup3_KeyError: "lookup3 c a b d = Inl KeyError \<longleftrightarrow> lacks_key c [a, b, d]"
  unfolding lookup3_def lacks_key_Cons
  by (auto split: sum.splits)

lemma lookup3_error: "lookup3 c a b d = Inl e \<Longrightarrow> e = KeyError \<or> e = TypeError"
  unfolding lookup3_def
  by (auto split: sum.splits dest: subscript_error)

lemma field_at_lacks_key: "field_at c ks = Some v \<Longrightarrow> \<not> lacks_key c ks"
  by (induction c ks rule: field_at.induct) (auto split: option.splits)





lemma get_project_values_Inr:
  "get_project_values c = Inr (a, b) \<longleftrightarrow>
   field_at c name_path = Some a \<and> field_at c managed_path = Some b"
  unfolding get_project_values_def Let_def name_path_def managed_path_def lookup3_Inr[symmetric]
  by (auto split: sum.splits)

lemma get_project_values_missing:
  "get_project_values c = Inl missing_field \<longleftrightarrow>
   lacks_key c name_path \<or> lacks_key c managed_path"
proof -
  have one: "\<And>v k1 k2. lacks_key v [k1] \<Longrightarrow> \<not> lacks_key v [k2] \<Longrightarrow>
      \<exists>x. field_at v [k2] = Some x"
  proof -
    fix v :: yaml and k1 k2
    assume "lacks_key v [k1]" "\<not> lacks_key v [k2]"
    then show "\<exists>x. field_at v [k2] = Some x"
      by (cases v) (auto split: option.splits)
  qed
  have "lacks_key c managed_path \<Longrightarrow> \<not> lacks_key c name_path \<Longrightarrow>
    \<exists>v. field_at c name_path = Some v"
    unfolding name_path_def managed_path_def
    by (cases "subscript c ''project''"; cases "subscript (projr (subscript c ''project'')) ''package''")
       (auto simp: lacks_key_Cons[of _ _ "[''package'', ''name'']"]
          lacks_key_Cons[of _ _ "[''package'', ''name_managed'']"]
          lacks_key_Cons[of _ _ "[''name'']"] lacks_key_Cons[of _ _ "[''name_managed'']"]
          field_at_Cons[of _ _ "[''package'', ''name'']"] field_at_Cons[of _ _ "[''name'']"]
          dest: one)
  then have h: "lacks_key c managed_path \<Longrightarrow> \<not> lacks_key c name_path \<Longrightarrow>
    \<exists>v. lookup3 c ''project'' ''package'' ''name'' = Inr v"
    by (simp add: lookup3_Inr name_path_def)
  have k1: "lacks_key c name_path \<longleftrightarrow> lookup3 c ''project'' ''package'' ''name'' = Inl KeyError"
    by (simp add: lookup3_KeyError name_path_def)
  have k2: "lacks_key c managed_path \<longleftrightarrow>
      lookup3 c ''project'' ''package'' ''name_managed'' = Inl KeyError"
    by (simp add: lookup3_KeyError managed_path_def)
  show ?thesis
  proof (cases "lookup3 c ''project'' ''package'' ''name''")
    case (Inl e)
    from lookup3_error[OF Inl] show ?thesis
    proof
      assume "e = KeyError"
      with Inl k1 show ?thesis by (simp add: get_project_values_def missing_field_def)
    next
      assume e: "e = TypeError"
      with Inl k1 have n1: "\<not> lacks_key c name_path" by simp
      with h Inl have "\<not> lacks_key c managed_path" by auto
      with n1 Inl e show ?thesis by (simp add: get_project_values_def missing_field_def)
    qed
  next
    case (Inr a)
    with k1 have n1: "\<not> lacks_key c name_path" by simp
    show ?thesis
    proof (cases "lookup3 c ''project'' ''package'' ''name_managed''")
      case (Inl e)
      from lookup3_error[OF Inl] Inl Inr n1 k2 show ?thesis
        by (auto simp: get_project_values_def missing_field_def)
    next
      case b: (Inr b)
      with Inr n1 k2 show ?thesis by (simp add: get_project_values_def missing_field_def)
    qed
  qed
qed

lemma read_text_FileNotFound:
  "read_text fs p = Inl FileNotFoundError \<longleftrightarrow> lookup_node fs p = None"
proof -
  have "\<And>e. oserror e \<noteq> FileNotFoundError" by (case_tac e) simp_all
  then show ?thesis
    by (auto simp: read_text_def split: option.splits node.splits fcontent.splits)
qed

lemma read_text_not_YAMLError: "read_text fs p \<noteq> Inl YAMLError"
proof -
  have "\<And>e. oserror e \<noteq> YAMLError" by (case_tac e) simp_all
  then show ?thesis
    by (auto simp: read_text_def split: option.splits node.splits fcontent.splits)
qed

lemma read_text_not_ValueError: "read_text fs p \<noteq> Inl (ValueError m)"
proof -
  have "\<And>e. oserror e \<noteq> ValueError m" by (case_tac e) simp_all
  then show ?thesis
    by (auto simp: read_text_def split: option.splits node.splits fcontent.splits)
qed

lemma load_cumulusci_config_fst:
  "fst (load_cumulusci_config y w) =
     (case read_text (files w) config_path of
        Inl e \<Rightarrow> Inl e
      | Inr s \<Rightarrow> (case y s of None \<Rightarrow> Inl parse_error | Some c \<Rightarrow> Inr c))"
  using read_text_not_YAMLError[of "files w" config_path]
  by (auto simp: load_cumulusci_config_def Let_def parse_error_def split: sum.splits option.splits)


section \<open>Rewriting the content of a file\<close>

lemma tok_nonempty [simp]: "tok_name \<noteq> []" "tok_label \<noteq> []"
  by (simp_all add: tok_name_def tok_label_def)

lemma str_replace_tok [simp]:
  "str_replace s tok_name new = replace_scan s tok_name new"
  "str_replace s tok_label new = replace_scan s tok_label new"
  by (simp_all add: str_replace_def)

lemma rewritten_no_tokens:
  assumes "fits tok_name a" "fits tok_name b" "fits tok_label b"
  shows "\<not> str_contains (rewritten s a b) tok_name" "\<not> str_contains (rewritten s a b) tok_label"
proof -
  have "\<not> sublist tok_name (replace_scan s tok_name a)"
    using assms(1) by (rule replace_scan_removes)
  then have "\<not> sublist tok_name (replace_scan (replace_scan s tok_name a) tok_label b)"
    by (rule replace_scan_keeps_absent[OF assms(2)])
  then show "\<not> str_contains (rewritten s a b) tok_name"
    by (simp add: rewritten_def str_contains_sublist)
  show "\<not> str_contains (rewritten s a b) tok_label"
    using replace_scan_removes[OF assms(3)]
    by (simp add: rewritten_def str_contains_sublist)
qed

lemma rewritten_absent:
  "\<not> has_placeholder s \<Longrightarrow> rewritten s a b = s"
  by (simp add: rewritten_def has_placeholder_def str_contains_sublist replace_scan_absent)

lemma rewritten_idempotent:
  assumes "fits tok_name a" "fits tok_name b" "fits tok_label b"
  shows "rewritten (rewritten s a b) a b = rewritten s a b"
  using rewritten_no_tokens[OF assms, of s]
  by (simp add: rewritten_absent has_placeholder_def)

lemma rewritten_changes:
  assumes "fits tok_name a" "fits tok_name b" "fits tok_label b" "has_placeholder s"
  shows "rewritten s a b \<noteq> s"
  using rewritten_no_tokens[OF assms(1-3), of s] assms(4)
  by (auto simp: has_placeholder_def)

lemma update_file_content_rewritten:
  "read_text (files w) p = Inr s \<Longrightarrow>
   update_file_content p (YStr a) (YStr b) w =
     (if rewritten s a b \<noteq> s
      then (case write_text (files w) p (rewritten s a b) of
              Inl e \<Rightarrow> update_handler p e (emit (OpenWrite p) (emit (OpenRead p) w))
            | Inr fs' \<Rightarrow> (Inr True, (emit (OpenWrite p) (emit (OpenRead p) w))\<lparr>files := fs'\<rparr>))
      else (Inr False, emit (OpenRead p) w))"
  by (simp add: update_file_content_text rewritten_def Let_def)

lemma update_file_content_other:
  "update_file_content p n l w = (r, w') \<Longrightarrow> q \<noteq> p \<Longrightarrow>
   lookup_node (files w') q = lookup_node (files w) q"
  by (erule update_file_content_cases) (auto dest: write_text_other)

lemma read_text_plain:
  "lookup_node fs p = Some (File f) \<Longrightarrow> read_fault f = None \<Longrightarrow> content f = Text s \<Longrightarrow>
   read_text fs p = Inr (translate_newlines s)"
  by (simp add: read_text_def)

lemma write_text_plain:
  "lookup_node fs p = Some (File f) \<Longrightarrow> write_fault f = None \<Longrightarrow>
   write_text fs p c = Inr (AList.update p (File (f\<lparr>content := Text c\<rparr>)) fs)"
  by (simp add: write_text_def)

lemma update_file_content_rewrites:
  assumes "lookup_node (files w) p = Some (File f)" "content f = Text s"
    "read_fault f = None" "write_fault f = None"
  shows "update_file_content p (YStr a) (YStr b) w =
     (if rewritten (translate_newlines s) a b \<noteq> translate_newlines s
      then (Inr True, (emit (OpenWrite p) (emit (OpenRead p) w))
              \<lparr>files := AList.update p
                 (File (f\<lparr>content := Text (rewritten (translate_newlines s) a b)\<rparr>)) (files w)\<rparr>)
      else (Inr False, emit (OpenRead p) w))"
  using assms
  by (simp add: update_file_content_rewritten[OF read_text_plain] write_text_plain)

lemma update_loop_other:
  assumes "update_loop ps n l k w = (r, w')" "p \<notin> set ps"
  shows "lookup_node (files w') p = lookup_node (files w) p"
proof (rule update_loop_invariant[where I = "\<lambda>fs. lookup_node fs p = lookup_node (files w) p",
      OF assms(1)])
  show "lookup_node (files w) p = lookup_node (files w) p" by simp
next
  fix q x r x'
  assume "q \<in> set ps" "lookup_node (files x) p = lookup_node (files w) p"
    "update_file_content q n l x = (r, x')"
  with update_file_content_other[of q n l x r x' p] assms(2)
  show "lookup_node (files x') p = lookup_node (files w) p" by auto
qed

lemma update_loop_rewrites:
  assumes "update_loop ps (YStr a) (YStr b) k w = (Inr k', w')" "p \<in> set ps" "distinct ps"
    "lookup_node (files w) p = Some (File f)" "content f = Text s"
    "read_fault f = None" "write_fault f = None"
  shows "lookup_node (files w') p =
     Some (File (if rewritten (translate_newlines s) a b = translate_newlines s then f
                 else f\<lparr>content := Text (rewritten (translate_newlines s) a b)\<rparr>))"
  using assms(1,2,3,4)
proof (induction ps arbitrary: k w)
  case Nil
  then show ?case by simp
next
  case (Cons q ps)
  let ?t = "translate_newlines s"
  let ?g = "if rewritten ?t a b = ?t then f else f\<lparr>content := Text (rewritten ?t a b)\<rparr>"
  show ?case
  proof (cases "q = p")
    case True
    with Cons.prems(3) have np: "p \<notin> set ps" by simp
    from Cons.prems(4) have ne: "p \<noteq> []" by (auto simp: lookup_node_def split: if_splits)
    note u = update_file_content_rewrites[OF Cons.prems(4) assms(5-7), of a b]
    show ?thesis
    proof (cases "rewritten ?t a b = ?t")
      case same: True
      with u Cons.prems(1) True
      have "update_loop ps (YStr a) (YStr b) k (emit (OpenRead p) w) = (Inr k', w')" by simp
      from update_loop_other[OF this np] Cons.prems(4) same show ?thesis by simp
    next
      case diff: False
      let ?w1 = "(emit (OpenWrite p) (emit (OpenRead p) w))
          \<lparr>files := AList.update p (File (f\<lparr>content := Text (rewritten ?t a b)\<rparr>)) (files w)\<rparr>"
      from u diff Cons.prems(1) True
      have "update_loop ps (YStr a) (YStr b) (Suc k) (emit (Print (UpdatedContent p)) ?w1)
          = (Inr k', w')" by simp
      from update_loop_other[OF this np] ne diff show ?thesis
        by (simp add: lookup_node_update)
    qed
  next
    case False
    with Cons.prems(2,3) have in_ps: "p \<in> set ps" and dist: "distinct ps" by simp_all
    obtain r1 w1 where u: "update_file_content q (YStr a) (YStr b) w = (r1, w1)"
      by (cases "update_file_content q (YStr a) (YStr b) w")
    from update_file_content_other[OF u, of p] False Cons.prems(4)
    have lk: "lookup_node (files w1) p = Some (File f)" by simp
    show ?thesis
    proof (cases r1)
      case (Inl e)
      with u Cons.prems(1) show ?thesis by simp
    next
      case (Inr changed)
      show ?thesis
      proof (cases changed)
        case True
        with Inr u Cons.prems(1)
        have "update_loop ps (YStr a) (YStr b) (Suc k) (emit (Print (UpdatedContent q)) w1)
            = (Inr k', w')" by simp
        from Cons.IH[OF this in_ps dist] lk show ?thesis by simp
      next
        case c: False
        with Inr u Cons.prems(1)
        have "update_loop ps (YStr a) (YStr b) k w1 = (Inr k', w')" by simp
        from Cons.IH[OF this in_ps dist lk] show ?thesis .
      qed
    qed
  qed
qed

lemma content_candidate_member:
  assumes "find_files_with_placeholders [] w = (Inr cands, w1)"
    "d \<in> set search_dirs" "path_exists (files w) [d]" "strict_prefix [d] p"
    "lookup_node (files w) p = Some (File f)" "content f = Text s" "read_fault f = None"
    "has_placeholder (translate_newlines s)"
  shows "p \<in> set cands"
proof -
  from assms(5) have k: "p \<in> fst ` set (files w)"
    by (auto dest!: lookup_node_FileD intro: rev_image_eqI)
  from assms(5-8) have m: "content_match (files w) p"
    by (simp add: content_match_def is_file_def read_text_plain)
  from k m assms(4) have "p \<in> set (filter (content_match (files w)) (rglob (files w) [d]))"
    by (simp add: rglob_iff)
  with scan_dirs_result[OF assms(1)[unfolded find_files_with_placeholders_def]] assms(2,3)
  show ?thesis by (auto simp: search_dirs_def)
qed

lemma distinct_rglob: "distinct (rglob fs d)"
  by (simp add: rglob_def)

lemma content_candidates_distinct:
  assumes "find_files_with_placeholders [] w = (Inr cands, w1)"
  shows "distinct cands"
proof -
  have dj: "\<And>p. strict_prefix [''force-app''] p \<Longrightarrow> \<not> strict_prefix [''unpackaged''] p"
    by (auto simp: strict_prefix_def prefix_def)
  from scan_dirs_result[OF assms[unfolded find_files_with_placeholders_def]]
  show ?thesis
    using dj by (auto simp: search_dirs_def distinct_rglob rglob_iff)
qed

lemma read_text_Inr_file:
  "read_text fs p = Inr s \<Longrightarrow>
   \<exists>f t. lookup_node fs p = Some (File f) \<and> content f = Text t \<and> read_fault f = None
         \<and> s = translate_newlines t"
  by (auto simp: read_text_def split: option.splits node.splits fcontent.splits)

text \<open>The label of a file: a write keeps it, and a rename moves the file with it.\<close>

lemma update_file_content_unique:
  assumes "update_file_content q n l w = (r, w')"
    and "\<forall>x g. lookup_node (files w) x = Some (File g) \<and> ident g = i \<longrightarrow> x = p"
  shows "\<forall>x g. lookup_node (files w') x = Some (File g) \<and> ident g = i \<longrightarrow> x = p"
  using assms(1)
proof (cases rule: update_file_content_cases)
  case unchanged
  with assms(2) show ?thesis by simp
next
  case (written s c)
  from read_text_Inr_file[OF written(1)] obtain g0 where
    g0: "lookup_node (files w) q = Some (File g0)" by blast
  from write_text_Inr[OF written(3)] g0
  have fs': "files w' = AList.update q (File (g0\<lparr>content := Text c\<rparr>)) (files w)" by auto
  show ?thesis
  proof (intro allI impI)
    fix x g
    assume h: "lookup_node (files w') x = Some (File g) \<and> ident g = i"
    show "x = p"
    proof (cases "x = q")
      case True
      with h fs' have "x = [] \<or> g = g0\<lparr>content := Text c\<rparr>"
        by (auto simp: lookup_node_update split: if_splits)
      with h True g0 have "ident g0 = i" by auto
      with assms(2) g0 True show ?thesis by blast
    next
      case False
      with h fs' have "lookup_node (files w) x = Some (File g)"
        by (auto simp: lookup_node_update split: if_splits)
      with assms(2) h show ?thesis by blast
    qed
  qed
qed

lemma update_loop_unique:
  assumes "update_loop ps n l k w = (r, w')"
    and "\<forall>x g. lookup_node (files w) x = Some (File g) \<and> ident g = i \<longrightarrow> x = p"
  shows "\<forall>x g. lookup_node (files w') x = Some (File g) \<and> ident g = i \<longrightarrow> x = p"
  by (rule update_loop_invariant[where
        I = "\<lambda>fs. \<forall>x g. lookup_node fs x = Some (File g) \<and> ident g = i \<longrightarrow> x = p",
        OF assms(1,2)])
     (erule update_file_content_unique)

lemma rename_file_carries:
  assumes "rename_file q n l w = (r, w')"
    and "\<forall>x g. lookup_node (files w) x = Some (File g) \<and> ident g = i \<longrightarrow> g = h"
  shows "\<forall>x g. lookup_node (files w') x = Some (File g) \<and> ident g = i \<longrightarrow> g = h"
  using assms(1)
proof (cases rule: rename_file_cases)
  case unchanged
  with assms(2) show ?thesis by simp
next
  case (renamed a b)
  from renamed(4) obtain f0 d where f0: "lookup_node (files w) q = Some (File f0)"
    and same: "d = q \<Longrightarrow> files w' = files w"
    and upd: "d \<noteq> q \<Longrightarrow> files w' = AList.update d (File f0) (AList.delete q (files w))"
    by (rule fs_rename_Inr) blast
  show ?thesis
  proof (cases "d = q")
    case True
    with same assms(2) show ?thesis by simp
  next
    case False
    show ?thesis
    proof (intro allI impI)
      fix x g
      assume a: "lookup_node (files w') x = Some (File g) \<and> ident g = i"
      with upd[OF False] have "g = f0 \<or> lookup_node (files w) x = Some (File g)"
        by (auto simp: lookup_node_update lookup_node_delete split: if_splits)
      with a f0 assms(2) show "g = h" by blast
    qed
  qed
qed

lemma rename_loop_carries:
  assumes "rename_loop ps n l k w = (r, w')"
    and "\<forall>x g. lookup_node (files w) x = Some (File g) \<and> ident g = i \<longrightarrow> g = h"
  shows "\<forall>x g. lookup_node (files w') x = Some (File g) \<and> ident g = i \<longrightarrow> g = h"
  by (rule rename_loop_invariant[where
        I = "\<lambda>fs. \<forall>x g. lookup_node fs x = Some (File g) \<and> ident g = i \<longrightarrow> g = h",
        OF assms(1,2)])
     (erule rename_file_carries)

section \<open>What a run can touch\<close>

lemma split_sep_absent: "c \<notin> set s \<Longrightarrow> split_sep c s = [s]"
  by (induction s) auto

lemma path_join_plain:
  "CHR ''/'' \<notin> set nn \<Longrightarrow>
   path_join d nn = PPath False (d @ (if nn = [] \<or> nn = ''.'' then [] else [nn]))"
  by (cases nn) (auto simp: path_join_def split_sep_absent Let_def)

lemma walk_plain: "''..'' \<notin> set cs \<Longrightarrow> walk fs cur cs = Inr q \<Longrightarrow> q = cur @ cs"
proof (induction cs arbitrary: cur)
  case Nil
  then show ?case by simp
next
  case (Cons c cs)
  from Cons.prems(1) have c: "c \<noteq> ''..''" and cs: "''..'' \<notin> set cs" by auto
  from Cons.prems(2) have nn: "\<not> has_nul (c # cs)" by (rule walk_Inr_no_nul)
  note st = walk_step[OF nn, of fs cur]
  show ?case
  proof (cases "cs = []")
    case True
    with Cons.prems(2) c st show ?thesis by (simp split: if_splits)
  next
    case False
    with Cons.prems(2) c st have w: "walk fs (cur @ [c]) cs = Inr q"
      by (auto split: option.splits node.splits)
    from Cons.IH[OF cs w] show ?thesis by simp
  qed
qed

lemma walk_dotdot:
  "lookup_node fs cur = Some Dir \<Longrightarrow> lookup_node fs (butlast cur) = Some Dir \<Longrightarrow>
   ''..'' \<notin> set cs \<Longrightarrow> walk fs cur (cs @ [''..'']) = Inr q \<Longrightarrow> lookup_node fs q = Some Dir"
proof (induction cs arbitrary: cur)
  case Nil
  from Nil.prems(4) have nn: "\<not> has_nul [''..'']" by (auto dest: walk_Inr_no_nul)
  from Nil.prems(4) walk_step[OF nn, of fs cur] Nil.prems(2) show ?case
    by (simp split: if_splits)
next
  case (Cons c cs)
  from Cons.prems(3) have c: "c \<noteq> ''..''" and cs: "''..'' \<notin> set cs" by auto
  from Cons.prems(4) have nn: "\<not> has_nul (c # (cs @ [''..'']))"
    by (auto dest: walk_Inr_no_nul)
  from Cons.prems(4) c walk_step[OF nn, of fs cur]
  have d: "lookup_node fs (cur @ [c]) = Some Dir"
    and w: "walk fs (cur @ [c]) (cs @ [''..'']) = Inr q"
    by (auto split: option.splits node.splits)
  from Cons.IH[OF d _ cs w] Cons.prems(1) show ?case by simp
qed

lemma wf_pathsD:
  "wf_paths fs \<Longrightarrow> lookup_node fs p = Some (File f) \<Longrightarrow> list_all valid_name p"
  by (drule lookup_node_FileD) (auto simp: wf_paths_def list_all_iff)

lemma in_search_dirs_parent:
  "in_search_dirs p \<Longrightarrow> under_search_dirs (parent p) \<and> under_search_dirs p \<and> p \<noteq> []"
  by (auto simp: in_search_dirs_def under_search_dirs_def parent_def list_ex_iff
      strict_prefix_def prefix_def butlast_append)

lemma under_search_dirs_append: "under_search_dirs p \<Longrightarrow> under_search_dirs (p @ q)"
  unfolding under_search_dirs_def list_ex_iff by (meson prefix_prefix)

lemma not_under_search_dirs_Nil [simp]: "\<not> under_search_dirs []"
  by (simp add: under_search_dirs_def search_dirs_def)

text \<open>What a rename of a name candidate can touch.\<close>

lemma fs_rename_plain:
  assumes r: "fs_rename fs p (path_join (parent p) nn) = Inr fs'"
    and nn: "CHR ''/'' \<notin> set nn" and p: "list_all valid_name p" "in_search_dirs p"
    and wf: "wf_paths fs"
  shows "wf_paths fs' \<and> (\<forall>q. \<not> under_search_dirs q \<longrightarrow> lookup_node fs' q = lookup_node fs q)
       \<and> (\<forall>q. q \<noteq> p \<and> q \<noteq> parts (path_join (parent p) nn) \<longrightarrow>
             lookup_node fs' q = lookup_node fs q)"
proof -
  let ?ps = "if nn = [] \<or> nn = ''.'' then [] else [nn]"
  have pj: "path_join (parent p) nn = PPath False (parent p @ ?ps)"
    using nn by (rule path_join_plain)
  from p(1) have pp: "''..'' \<notin> set (parent p)" "list_all valid_name (parent p)"
    by (auto simp: parent_def list_all_iff valid_name_def dest: in_set_butlastD)
  from r obtain f d where f: "lookup_node fs p = Some (File f)"
    and w: "walk fs [] (parts (path_join (parent p) nn)) = Inr d"
    and same: "d = p \<Longrightarrow> fs' = fs"
    and nd: "d \<noteq> p \<Longrightarrow> lookup_node fs d \<noteq> Some Dir"
    and upd: "d \<noteq> p \<Longrightarrow> fs' = AList.update d (File f) (AList.delete p fs)"
    by (rule fs_rename_Inr) blast
  show ?thesis
  proof (cases "d = p")
    case True
    with same wf show ?thesis by simp
  next
    case False
    have dd: "d = parent p @ ?ps \<and> nn \<noteq> ''..''"
    proof (cases "nn = ''..''")
      case True
      with w pj have "walk fs [] (parent p @ [''..'']) = Inr d" by simp
      from walk_dotdot[OF _ _ pp(1) this] have "lookup_node fs d = Some Dir" by simp
      with nd[OF False] show ?thesis by simp
    next
      case ne: False
      with pp(1) have "''..'' \<notin> set (parent p @ ?ps)" by auto
      from walk_plain[OF this, of fs "[]" d] w pj ne show ?thesis by simp
    qed
    from dd pp(2) nn have vd: "list_all valid_name d"
      by (auto simp: valid_name_def)
    from in_search_dirs_parent[OF p(2)] dd have ud: "under_search_dirs d" "under_search_dirs p"
      by (auto intro: under_search_dirs_append)
    have 1: "wf_paths fs'"
      unfolding upd[OF False] wf_paths_def
      using wf vd by (auto simp: wf_paths_def intro!: list_all_update list_all_delete)
    have 2: "\<forall>q. \<not> under_search_dirs q \<longrightarrow> lookup_node fs' q = lookup_node fs q"
      unfolding upd[OF False] using ud
      by (auto simp: lookup_node_update lookup_node_delete)
    have 3: "\<forall>q. q \<noteq> p \<and> q \<noteq> parts (path_join (parent p) nn) \<longrightarrow>
             lookup_node fs' q = lookup_node fs q"
      unfolding upd[OF False] pj using dd
      by (auto simp: lookup_node_update lookup_node_delete)
    from 1 2 3 show ?thesis by blast
  qed
qed

lemma write_text_wf:
  assumes "write_text fs p c = Inr fs'" "wf_paths fs" "lookup_node fs p = Some (File f)"
  shows "wf_paths fs'"
proof -
  from wf_pathsD[OF assms(2,3)] have v: "list_all valid_name p" .
  from write_text_Inr[OF assms(1)] assms(3)
  have "fs' = AList.update p (File (f\<lparr>content := Text c\<rparr>)) fs" by auto
  with assms(2) v show ?thesis
    unfolding wf_paths_def by (auto intro!: list_all_update)
qed

lemma update_file_content_frame:
  assumes "update_file_content p n l w = (r, w')" "in_search_dirs p" "wf_paths (files w)"
  shows "wf_paths (files w') \<and>
    (\<forall>q. \<not> under_search_dirs q \<longrightarrow> lookup_node (files w') q = lookup_node (files w) q)"
  using assms(1)
proof (cases rule: update_file_content_cases)
  case unchanged
  with assms(3) show ?thesis by simp
next
  case (written s c)
  from read_text_Inr_file[OF written(1)] obtain f where
    f: "lookup_node (files w) p = Some (File f)" by blast
  from write_text_wf[OF written(3) assms(3) f] have 1: "wf_paths (files w')" .
  from in_search_dirs_parent[OF assms(2)] have "under_search_dirs p" by simp
  with write_text_other[OF written(3)] 1 show ?thesis by metis
qed

lemma rename_file_frame:
  assumes "rename_file p n l w = (r, w')" "in_search_dirs p" "wf_paths (files w)"
    "no_slash n" "no_slash l" "name_match (files w0) p" "wf_paths (files w0)"
  shows "wf_paths (files w') \<and>
    (\<forall>q. \<not> under_search_dirs q \<longrightarrow> lookup_node (files w') q = lookup_node (files w) q)"
  using assms(1)
proof (cases rule: rename_file_cases)
  case unchanged
  with assms(3) show ?thesis by simp
next
  case (renamed a b)
  let ?nn = "str_replace (str_replace (base_name p) tok_name a) tok_label b"
  from assms(6) obtain f where "lookup_node (files w0) p = Some (File f)"
    by (auto simp: name_match_def is_file_def split: option.splits node.splits)
  from wf_pathsD[OF assms(7) this] have vp: "list_all valid_name p" .
  from in_search_dirs_parent[OF assms(2)] have "p \<noteq> []" by simp
  with vp have "CHR ''/'' \<notin> set (base_name p)"
    by (auto simp: base_name_def list_all_iff valid_name_def)
  with set_rewritten[of "base_name p" a b] assms(4,5) renamed(1,2)
  have nn: "CHR ''/'' \<notin> set ?nn" by (auto simp: rewritten_def)
  from fs_rename_plain[OF renamed(4) nn vp assms(2,3)] show ?thesis by blast
qed

lemma main_frame:
  assumes "wf_paths (files w)"
    and "case configuration y (files w) of Inr (n, l) \<Rightarrow> no_slash n \<and> no_slash l | Inl e \<Rightarrow> True"
  shows "wf_paths (files (snd (main y w))) \<and>
    (\<forall>q. \<not> under_search_dirs q \<longrightarrow> lookup_node (files (snd (main y w))) q = lookup_node (files w) q)"
proof -
  obtain r w' where m: "main y w = (r, w')" by (cases "main y w")
  let ?I = "\<lambda>fs. wf_paths fs \<and> (\<forall>q. \<not> under_search_dirs q \<longrightarrow> lookup_node fs q = lookup_node (files w) q)"
  from m have "?I (files w')"
  proof (cases rule: main_cases)
    case (config_fails e w1)
    from load_configuration_files[OF config_fails(1)] assms(1) config_fails(3) show ?thesis by simp
  next
    case (loaded n l w1)
    let ?w0 = "emit (Print (ProjectLabelLine l)) (emit (Print (ProjectNameLine n)) w1)"
    from load_configuration_files[OF loaded(1)] have f0: "files ?w0 = files w" by simp
    from load_configuration_fst[of y "emit (Print Starting) w"] loaded(1)
    have "configuration y (files w) = Inr (n, l)" by simp
    with assms(2) have ns: "no_slash n" "no_slash l" by simp_all
    show ?thesis
    proof (rule main_after_config_invariant[where I = ?I, OF loaded(2)])
      show "?I (files ?w0)" using f0 assms(1) by simp
    next
      fix p x r x'
      assume "in_search_dirs p" "?I (files x)" "update_file_content p n l x = (r, x')"
      with update_file_content_frame[of p n l x r x'] show "?I (files x')" by simp
    next
      fix p x r x'
      assume a: "in_search_dirs p" "name_match (files ?w0) p" "?I (files x)"
        "rename_file p n l x = (r, x')"
      from rename_file_frame[OF a(4,1) _ ns a(2)] a(3) f0 assms(1)
      show "?I (files x')" by simp
    qed
  qed
  with m show ?thesis by simp
qed

text \<open>Which exceptions can leave the functions.\<close>

lemma update_handler_Inl:
  "update_handler p e w = (Inl e', w') \<Longrightarrow> e' \<noteq> UnicodeDecodeError \<and> e' \<noteq> PermissionError"
  by (auto simp: update_handler_def split: if_splits)

lemma update_file_content_Inl:
  assumes "update_file_content p n l w = (Inl e, w')"
  shows "e \<noteq> UnicodeDecodeError \<and> e \<noteq> PermissionError"
proof (cases "read_text (files w) p")
  case (Inl x)
  with assms show ?thesis
    by (auto simp: update_file_content_read_error dest: update_handler_Inl)
next
  case (Inr s)
  show ?thesis
  proof (cases "py_replace s tok_name n")
    case (Inl x)
    with Inr assms show ?thesis
      by (auto simp: update_file_content_def dest: update_handler_Inl)
  next
    case c1: (Inr c1)
    show ?thesis
    proof (cases "py_replace c1 tok_label l")
      case (Inl x)
      with Inr c1 assms show ?thesis
        by (auto simp: update_file_content_def dest: update_handler_Inl)
    next
      case c2: (Inr c2)
      show ?thesis
      proof (cases "c2 = s")
        case True
        with Inr c1 c2 assms show ?thesis by (simp add: update_file_content_def)
      next
        case False
        with Inr c1 c2 assms show ?thesis
          by (cases "write_text (files w) p c2")
             (auto simp: update_file_content_def Let_def dest: update_handler_Inl)
      qed
    qed
  qed
qed

lemma rename_file_Inl:
  assumes "rename_file p n l w = (Inl e, w')"
  shows "e = TypeError \<or> e = embedded_null"
proof (cases "py_replace (base_name p) tok_name n")
  case (Inl x)
  with assms py_replace_Inl[OF Inl] show ?thesis by (simp add: rename_file_def)
next
  case n1: (Inr n1)
  show ?thesis
  proof (cases "py_replace n1 tok_label l")
    case (Inl x)
    with n1 assms py_replace_Inl[OF Inl] show ?thesis by (simp add: rename_file_def)
  next
    case nn: (Inr nn)
    show ?thesis
    proof (cases "nn = base_name p")
      case True
      with n1 nn assms show ?thesis by (simp add: rename_file_def)
    next
      case False
      show ?thesis
      proof (cases "fs_rename (files w) p (path_join (parent p) nn)")
        case (Inl x)
        with fs_rename_error_cases[OF Inl] n1 nn False assms show ?thesis
          by (auto simp: rename_file_def Let_def split: if_splits)
      next
        case (Inr fs')
        with n1 nn False assms show ?thesis by (simp add: rename_file_def Let_def)
      qed
    qed
  qed
qed

lemma update_loop_Inl:
  "update_loop ps n l k w = (Inl e, w') \<Longrightarrow> e \<noteq> UnicodeDecodeError \<and> e \<noteq> PermissionError"
proof (induction ps arbitrary: k w)
  case Nil
  then show ?case by simp
next
  case (Cons p ps)
  obtain r1 w1 where u: "update_file_content p n l w = (r1, w1)"
    by (cases "update_file_content p n l w")
  show ?case
  proof (cases r1)
    case (Inl x)
    with u Cons.prems update_file_content_Inl[of p n l w x w1] show ?thesis by simp
  next
    case (Inr changed)
    with u Cons.prems Cons.IH show ?thesis by (cases changed) auto
  qed
qed

lemma rename_loop_Inl:
  "rename_loop ps n l k w = (Inl e, w') \<Longrightarrow> e = TypeError \<or> e = embedded_null"
proof (induction ps arbitrary: k w)
  case Nil
  then show ?case by simp
next
  case (Cons p ps)
  obtain r1 w1 where u: "rename_file p n l w = (r1, w1)"
    by (cases "rename_file p n l w")
  show ?case
  proof (cases r1)
    case (Inl x)
    with u Cons.prems rename_file_Inl[of p n l w x w1] show ?thesis by simp
  next
    case (Inr d)
    with u Cons.prems Cons.IH show ?thesis by (cases "d \<noteq> PPath False p") auto
  qed
qed

lemma scan_files_Inl:
  "scan_files ps acc w = (Inl e, w') \<Longrightarrow> e \<noteq> UnicodeDecodeError"
proof (induction ps arbitrary: acc w)
  case Nil
  then show ?case by simp
next
  case (Cons p ps)
  show ?case
  proof (cases "refused (files w) p")
    case True
    with Cons.prems show ?thesis by (auto simp: stat_is_file_simps)
  next
    case nr: False
    note st = stat_is_file_simps(2)[OF nr]
    show ?thesis
    proof (cases "is_file (files w) p")
      case False
      with Cons st show ?thesis by simp
    next
      case True
      show ?thesis
      proof (cases "read_text (files w) p")
        case (Inl x)
        with True st Cons.prems Cons.IH[of acc "emit (OpenRead p) w"] show ?thesis
          by (auto simp: Let_def split: if_splits)
      next
        case (Inr s)
        with True st Cons.prems Cons.IH[of acc "emit (OpenRead p) w"]
          Cons.IH[of "acc @ [p]" "emit (OpenRead p) w"] show ?thesis
          by (auto simp: Let_def split: if_splits)
      qed
    qed
  qed
qed

lemma scan_dirs_Inl:
  "scan_dirs ds root acc w = (Inl e, w') \<Longrightarrow> e \<noteq> UnicodeDecodeError"
proof (induction ds arbitrary: acc w)
  case Nil
  then show ?case by simp
next
  case (Cons d ds)
  show ?case
  proof (cases "refused (files w) (root @ [d])")
    case True
    with Cons.prems show ?thesis by (auto simp: stat_exists_simps)
  next
    case nr: False
    note st = stat_exists_simps(2)[OF nr]
    show ?thesis
    proof (cases "path_exists (files w) (root @ [d])")
      case False
      with Cons st show ?thesis by simp
    next
      case True
      obtain r1 w1 where s: "scan_files (rglob (files w) (root @ [d])) acc w = (r1, w1)"
        by (cases "scan_files (rglob (files w) (root @ [d])) acc w")
      show ?thesis
      proof (cases r1)
        case (Inl x)
        with True st s Cons.prems scan_files_Inl[of _ acc w x w1] show ?thesis
          by (auto simp: Let_def)
      next
        case (Inr acc')
        with True st s Cons.prems have "scan_dirs ds root acc' w1 = (Inl e, w')"
          by (simp add: Let_def)
        from Cons.IH[OF this] show ?thesis .
      qed
    qed
  qed
qed

lemma main_never_decode_error: "fst (main y w) \<noteq> Inl UnicodeDecodeError"
proof -
  obtain r w' where m: "main y w = (r, w')" by (cases "main y w")
  from m have "r \<noteq> Inl UnicodeDecodeError"
  proof (cases rule: main_cases)
    case (config_fails e w1)
    then show ?thesis by simp
  next
    case (loaded n l w1)
    from loaded(2) show ?thesis
    proof (cases rule: main_after_config_cases)
      case (scan_raises e)
      from scan_dirs_Inl[OF scan_raises(1)[unfolded find_files_with_placeholders_def]] scan_raises(2)
      show ?thesis by auto
    next
      case (update_raises cands w1 e)
      from update_loop_Inl[OF update_raises(2)] update_raises(3) show ?thesis by auto
    next
      case (rename_raises cands w1 k w5 e)
      from rename_loop_Inl[OF rename_raises(3)] rename_raises(4) show ?thesis
        by (auto simp: embedded_null_def)
    next
      case (completed cands w1 k w5 m w6)
      then show ?thesis by simp
    qed
  qed
  with m show ?thesis by simp
qed

lemma renames_avoid_append [simp]:
  "renames_avoid q (a @ b) \<longleftrightarrow> renames_avoid q a \<and> renames_avoid q b"
  by (simp add: renames_avoid_def)

lemma renames_avoid_Nil [simp]: "renames_avoid q []"
  by (simp add: renames_avoid_def)

lemma renames_avoid_Cons [simp]:
  "renames_avoid q (e # es) \<longleftrightarrow> rename_avoids q e \<and> renames_avoid q es"
  by (simp add: renames_avoid_def)

lemma renames_avoid_no_rename:
  "list_all (\<lambda>e. \<not> is_rename e) es \<Longrightarrow> renames_avoid q es"
proof (induction es)
  case Nil
  then show ?case by simp
next
  case (Cons e es)
  then show ?case by (cases e) auto
qed

lemma new_events_only: "only P w w' \<Longrightarrow> events w' = events w @ new_events w w' \<and> list_all P (new_events w w')"
  by (auto simp: only_def new_events_def)

lemma new_events_append: "events w' = events w @ es \<Longrightarrow> new_events w w' = es"
  by (simp add: new_events_def)

lemma read_text_binary:
  "lookup_node fs q = Some (File f) \<Longrightarrow> content f = Binary bs \<Longrightarrow> \<exists>e. read_text fs q = Inl e"
  by (auto simp: read_text_def split: option.splits)

lemma update_file_content_binary:
  assumes "update_file_content p n l w = (r, w')"
    "lookup_node (files w) q = Some (File f)" "content f = Binary bs"
  shows "lookup_node (files w') q = Some (File f) \<and>
    only (\<lambda>e. e \<noteq> OpenWrite q \<and> \<not> is_rename e) w w'"
proof (cases "p = q")
  case False
  from update_file_content_other[OF assms(1), of q] False assms(2)
  have "lookup_node (files w') q = Some (File f)" by simp
  moreover have "only (\<lambda>e. e \<noteq> OpenWrite q \<and> \<not> is_rename e) w w'"
    by (rule only_mono[OF update_file_content_events[OF assms(1)]]) (use False in auto)
  ultimately show ?thesis by simp
next
  case True
  from read_text_binary[OF assms(2,3)] obtain e where e: "read_text (files w) q = Inl e" by blast
  with assms(1) True have h: "update_handler q e (emit (OpenRead q) w) = (r, w')"
    by (simp add: update_file_content_read_error)
  from update_handler_files[OF h] assms(2) have "lookup_node (files w') q = Some (File f)" by simp
  moreover have "only (\<lambda>e. e \<noteq> OpenWrite q \<and> \<not> is_rename e) w w'"
    by (rule only_emit_left[of _ "OpenRead q"], simp)
       (rule only_mono[OF update_handler_events[OF h]], auto)
  ultimately show ?thesis by simp
qed

lemma update_loop_binary:
  assumes "update_loop ps n l k w = (r, w')"
    "lookup_node (files w) q = Some (File f)" "content f = Binary bs"
  shows "lookup_node (files w') q = Some (File f) \<and>
    only (\<lambda>e. e \<noteq> OpenWrite q \<and> \<not> is_rename e) w w'"
  using assms(1,2)
proof (induction ps arbitrary: k w)
  case Nil
  then show ?case by simp
next
  case (Cons p ps)
  let ?P = "\<lambda>e. e \<noteq> OpenWrite q \<and> \<not> is_rename e"
  obtain r1 w1 where u: "update_file_content p n l w = (r1, w1)"
    by (cases "update_file_content p n l w")
  from update_file_content_binary[OF u Cons.prems(2) assms(3)]
  have l1: "lookup_node (files w1) q = Some (File f)" and o1: "only ?P w w1" by simp_all
  show ?case
  proof (cases r1)
    case (Inl e)
    with u Cons.prems(1) l1 o1 show ?thesis by simp
  next
    case (Inr changed)
    show ?thesis
    proof (cases changed)
      case True
      with Inr u Cons.prems(1)
      have "update_loop ps n l (Suc k) (emit (Print (UpdatedContent p)) w1) = (r, w')" by simp
      from Cons.IH[OF this] l1
      have a: "lookup_node (files w') q = Some (File f)"
        and b: "only ?P (emit (Print (UpdatedContent p)) w1) w'" by simp_all
      from b have "only ?P w1 w'" by (rule only_emit_left[rotated]) simp
      with o1 a show ?thesis by (auto intro: only_trans)
    next
      case False
      with Inr u Cons.prems(1) have "update_loop ps n l k w1 = (r, w')" by simp
      from Cons.IH[OF this l1] o1 show ?thesis by (auto intro: only_trans)
    qed
  qed
qed

lemma rename_file_renamed:
  assumes "n = YStr a" "l = YStr b"
    "str_replace (str_replace (base_name p) tok_name a) tok_label b \<noteq> base_name p"
    "fs_rename (files w) p
       (path_join (parent p) (str_replace (str_replace (base_name p) tok_name a) tok_label b)) = Inr fs'"
  shows "rename_file p n l w =
     (Inr (path_join (parent p) (str_replace (str_replace (base_name p) tok_name a) tok_label b)),
      (emit (Rename p (path_join (parent p)
          (str_replace (str_replace (base_name p) tok_name a) tok_label b))) w)\<lparr>files := fs'\<rparr>)"
  using assms by (simp add: rename_file_def Let_def)

text \<open>One rename: the record grows, no file is opened, and a path that the rename avoids
  keeps its entry.\<close>

lemma rename_file_untouched:
  assumes "rename_file p n l w = (r, w')"
  shows "only (\<lambda>e. \<not> is_access e) w w' \<and>
    (wf_paths (files w) \<and> no_slash n \<and> no_slash l \<and> in_search_dirs p \<and> list_all valid_name p
       \<longrightarrow> wf_paths (files w') \<and>
           (renames_avoid q (new_events w w') \<longrightarrow> lookup_node (files w') q = lookup_node (files w) q))"
proof -
  have ev: "only (\<lambda>e. \<not> is_access e) w w'"
    by (rule only_mono[OF rename_file_events[OF assms]]) auto
  from assms show ?thesis
  proof (cases rule: rename_file_cases)
    case unchanged
    with ev show ?thesis by simp
  next
    case (renamed a b)
    let ?nn = "str_replace (str_replace (base_name p) tok_name a) tok_label b"
    from rename_file_renamed[OF renamed(1,2,3,4)] assms
    have w': "w' = (emit (Rename p (path_join (parent p) ?nn)) w)\<lparr>files := files w'\<rparr>" by simp
    then have "events w' = events w @ [Rename p (path_join (parent p) ?nn)]"
      by (metis events_emit world.simps(6) world.select_convs(2) world.surjective world.update_convs(1))
    then have ne: "new_events w w' = [Rename p (path_join (parent p) ?nn)]"
      by (rule new_events_append)
    have "wf_paths (files w) \<and> no_slash n \<and> no_slash l \<and> in_search_dirs p \<and> list_all valid_name p
       \<longrightarrow> wf_paths (files w') \<and>
           (renames_avoid q (new_events w w') \<longrightarrow> lookup_node (files w') q = lookup_node (files w) q)"
    proof
      assume h: "wf_paths (files w) \<and> no_slash n \<and> no_slash l \<and> in_search_dirs p \<and> list_all valid_name p"
      then have "p \<noteq> []" using in_search_dirs_parent by blast
      with h have "CHR ''/'' \<notin> set (base_name p)"
        by (auto simp: base_name_def list_all_iff valid_name_def)
      with set_rewritten[of "base_name p" a b] h renamed(1,2)
      have nn: "CHR ''/'' \<notin> set ?nn" by (auto simp: rewritten_def)
      from fs_rename_plain[OF renamed(4) nn] h
      have "wf_paths (files w')"
        and "\<forall>q. q \<noteq> p \<and> q \<noteq> parts (path_join (parent p) ?nn) \<longrightarrow>
             lookup_node (files w') q = lookup_node (files w) q"
        by blast+
      then show "wf_paths (files w') \<and>
           (renames_avoid q (new_events w w') \<longrightarrow> lookup_node (files w') q = lookup_node (files w) q)"
        unfolding ne by auto
    qed
    with ev show ?thesis by blast
  qed
qed

lemma new_events_trans:
  "only P w w1 \<Longrightarrow> only Q w1 w' \<Longrightarrow> new_events w w' = new_events w w1 @ new_events w1 w'"
  by (auto simp: only_def new_events_def)

lemma new_events_emit_right:
  "only P w w1 \<Longrightarrow> new_events w (emit e w1) = new_events w w1 @ [e]"
  by (auto simp: only_def new_events_def)

lemma new_events_emit_left:
  "only P (emit e w) w' \<Longrightarrow> new_events w w' = e # new_events (emit e w) w'"
  by (auto simp: only_def new_events_def)

lemma new_events_refl [simp]: "new_events w w = []"
  by (simp add: new_events_def)

lemma rename_loop_untouched:
  assumes "rename_loop ps n l k w = (r, w')"
  shows "only (\<lambda>e. \<not> is_access e) w w' \<and>
    (wf_paths (files w) \<and> no_slash n \<and> no_slash l \<and>
       (\<forall>p\<in>set ps. in_search_dirs p \<and> list_all valid_name p)
       \<longrightarrow> wf_paths (files w') \<and>
           (renames_avoid q (new_events w w') \<longrightarrow> lookup_node (files w') q = lookup_node (files w) q))"
  using assms
proof (induction ps arbitrary: k w)
  case Nil
  then show ?case by simp
next
  case (Cons p ps)
  let ?A = "\<lambda>e. \<not> is_access e"
  obtain r1 w1 where u: "rename_file p n l w = (r1, w1)"
    by (cases "rename_file p n l w")
  from rename_file_untouched[OF u, of q]
  have o1: "only ?A w w1"
    and s1: "wf_paths (files w) \<and> no_slash n \<and> no_slash l \<and> in_search_dirs p \<and> list_all valid_name p
       \<Longrightarrow> wf_paths (files w1) \<and>
           (renames_avoid q (new_events w w1) \<longrightarrow> lookup_node (files w1) q = lookup_node (files w) q)"
    by blast+
  show ?case
  proof (cases r1)
    case (Inl e)
    with u Cons.prems have "w' = w1" by simp
    with o1 s1 show ?thesis by auto
  next
    case (Inr d)
    define w2 where "w2 = (if d \<noteq> PPath False p
        then emit (Print (Renamed (base_name p) (base_name (parts d)))) w1 else w1)"
    define k2 where "k2 = (if d \<noteq> PPath False p then Suc k else k)"
    from Inr u Cons.prems have l: "rename_loop ps n l k2 w2 = (r, w')"
      by (auto simp: w2_def k2_def split: if_splits)
    have f2: "files w2 = files w1" by (simp add: w2_def)
    have o12: "only ?A w1 w2" by (simp add: w2_def only_emit)
    have ne12: "renames_avoid q (new_events w1 w2)"
      by (simp add: w2_def new_events_emit_right[of ?A w1 w1])
    from Cons.IH[OF l]
    have o2: "only ?A w2 w'"
      and s2: "wf_paths (files w2) \<and> no_slash n \<and> no_slash l \<and>
       (\<forall>p\<in>set ps. in_search_dirs p \<and> list_all valid_name p)
       \<Longrightarrow> wf_paths (files w') \<and>
           (renames_avoid q (new_events w2 w') \<longrightarrow> lookup_node (files w') q = lookup_node (files w2) q)"
      by blast+
    have o: "only ?A w w'" using o1 o12 o2 by (blast intro: only_trans)
    have ne: "new_events w w' = new_events w w1 @ new_events w1 w2 @ new_events w2 w'"
      using new_events_trans[OF o1 only_trans[OF o12 o2]] new_events_trans[OF o12 o2] by simp
    have "wf_paths (files w) \<and> no_slash n \<and> no_slash l \<and>
       (\<forall>p\<in>set (p # ps). in_search_dirs p \<and> list_all valid_name p)
       \<longrightarrow> wf_paths (files w') \<and>
           (renames_avoid q (new_events w w') \<longrightarrow> lookup_node (files w') q = lookup_node (files w) q)"
    proof
      assume h: "wf_paths (files w) \<and> no_slash n \<and> no_slash l \<and>
       (\<forall>p\<in>set (p # ps). in_search_dirs p \<and> list_all valid_name p)"
      with s1 have a: "wf_paths (files w1)"
        "renames_avoid q (new_events w w1) \<Longrightarrow> lookup_node (files w1) q = lookup_node (files w) q"
        by auto
      from s2 a(1) h f2 have b: "wf_paths (files w')"
        "renames_avoid q (new_events w2 w') \<Longrightarrow> lookup_node (files w') q = lookup_node (files w2) q"
        by auto
      from a(2) b f2 show "wf_paths (files w') \<and>
           (renames_avoid q (new_events w w') \<longrightarrow> lookup_node (files w') q = lookup_node (files w) q)"
        unfolding ne by auto
    qed
    with o show ?thesis by blast
  qed
qed

lemma update_loop_wf:
  assumes "update_loop ps n l k w = (r, w')" "wf_paths (files w)" "\<forall>p\<in>set ps. in_search_dirs p"
  shows "wf_paths (files w')"
proof (rule update_loop_invariant[where I = wf_paths, OF assms(1,2)])
  fix p x r x'
  assume "p \<in> set ps" "wf_paths (files x)" "update_file_content p n l x = (r, x')"
  with assms(3) update_file_content_frame[of p n l x r x'] show "wf_paths (files x')" by blast
qed

lemma main_after_config_binary:
  assumes m: "main_after_config n l w = (r, w')"
    and lk: "lookup_node (files w) q = Some (File f)" and bin: "content f = Binary bs"
  shows "only (\<lambda>e. e \<noteq> OpenWrite q) w w' \<and>
    (wf_paths (files w) \<and> no_slash n \<and> no_slash l \<longrightarrow>
       renames_avoid q (new_events w w') \<longrightarrow> lookup_node (files w') q = Some (File f))"
proof -
  let ?P = "\<lambda>e. e \<noteq> OpenWrite q \<and> \<not> is_rename e"
  let ?W = "\<lambda>e. e \<noteq> OpenWrite q"
  have scan: "\<And>c w1. find_files_with_placeholders [] (emit (Print Searching) w) = (c, w1)
     \<Longrightarrow> only ?P w w1"
    unfolding find_files_with_placeholders_def
    by (rule only_emit_left[of ?P "Print Searching"], simp)
       (drule scan_dirs_events, erule only_mono, auto)
  have noren: "\<And>x z. only ?P x z \<Longrightarrow> renames_avoid q (new_events x z)"
    by (drule new_events_only) (auto intro: renames_avoid_no_rename simp: list_all_iff)
  from m show ?thesis
  proof (cases rule: main_after_config_cases)
    case (scan_raises e)
    from find_files_with_placeholders_files[OF scan_raises(1)] lk
    have "lookup_node (files w') q = Some (File f)" by simp
    with only_mono[OF scan[OF scan_raises(1)], of ?W] show ?thesis by simp
  next
    case (update_raises cands w1 e)
    let ?w4 = "emit (Print UpdatingContents)
           (emit (Print (FoundNames (length (find_files_with_placeholder_names [] (files w1)))))
             (emit (Print (FoundContent (length cands))) w1))"
    from find_files_with_placeholders_files[OF update_raises(1)] lk
    have l4: "lookup_node (files ?w4) q = Some (File f)" by simp
    from update_loop_binary[OF update_raises(2) l4 bin]
    have l5: "lookup_node (files w') q = Some (File f)" and o5: "only ?P ?w4 w'" by simp_all
    have "only ?P w1 w'" by (rule only_emit3[OF _ _ _ o5]) simp_all
    with scan[OF update_raises(1)] have "only ?P w w'" by (rule only_trans)
    with l5 only_mono[of ?P w w' ?W] show ?thesis by simp
  next
    case (rename_raises cands w1 k w5 e)
    let ?w4 = "emit (Print UpdatingContents)
           (emit (Print (FoundNames (length (find_files_with_placeholder_names [] (files w1)))))
             (emit (Print (FoundContent (length cands))) w1))"
    let ?w5 = "emit (Print RenamingFiles) w5"
    from find_files_with_placeholders_files[OF rename_raises(1)]
    have f1: "files w1 = files w" by simp
    with lk have l4: "lookup_node (files ?w4) q = Some (File f)" by simp
    from update_loop_binary[OF rename_raises(2) l4 bin]
    have l5: "lookup_node (files w5) q = Some (File f)" and o5: "only ?P ?w4 w5" by simp_all
    have "only ?P w1 w5" by (rule only_emit3[OF _ _ _ o5]) simp_all
    with scan[OF rename_raises(1)] have oa: "only ?P w w5" by (rule only_trans)
    then have oa': "only ?P w ?w5" by (rule only_emit_right[rotated]) simp
    from rename_loop_untouched[OF rename_raises(3), of q]
    have ob: "only (\<lambda>e. \<not> is_access e) ?w5 w'"
      and sb: "wf_paths (files ?w5) \<and> no_slash n \<and> no_slash l \<and>
       (\<forall>p\<in>set (find_files_with_placeholder_names [] (files w1)).
          in_search_dirs p \<and> list_all valid_name p)
       \<Longrightarrow> renames_avoid q (new_events ?w5 w') \<Longrightarrow>
          lookup_node (files w') q = lookup_node (files ?w5) q"
      by blast+
    have ob': "only ?W ?w5 w'" by (rule only_mono[OF ob]) auto
    have o: "only ?W w w'" by (rule only_trans[OF only_mono[OF oa', of ?W] ob']) simp
    have ne: "new_events w w' = new_events w ?w5 @ new_events ?w5 w'"
      by (rule new_events_trans[OF oa' ob])
    have "wf_paths (files w) \<and> no_slash n \<and> no_slash l \<longrightarrow>
       renames_avoid q (new_events w w') \<longrightarrow> lookup_node (files w') q = Some (File f)"
    proof (intro impI)
      assume h: "wf_paths (files w) \<and> no_slash n \<and> no_slash l"
        and ra: "renames_avoid q (new_events w w')"
      have c: "\<forall>p\<in>set cands. in_search_dirs p"
        using content_candidate[OF rename_raises(1)] by blast
      from h f1 have "wf_paths (files ?w4)" by simp
      from update_loop_wf[OF rename_raises(2) this c] have wf5: "wf_paths (files ?w5)" by simp
      have nc: "\<forall>p\<in>set (find_files_with_placeholder_names [] (files w1)).
          in_search_dirs p \<and> list_all valid_name p"
      proof
        fix p assume "p \<in> set (find_files_with_placeholder_names [] (files w1))"
        from name_candidate[OF this] obtain g where
          "in_search_dirs p" "lookup_node (files w1) p = Some (File g)"
          by (auto simp: name_match_def is_file_def split: option.splits node.splits)
        with wf_pathsD[of "files w1" p g] h f1
        show "in_search_dirs p \<and> list_all valid_name p" by simp
      qed
      from ra ne have "renames_avoid q (new_events ?w5 w')" by simp
      from sb[OF _ this] wf5 h nc l5 show "lookup_node (files w') q = Some (File f)" by simp
    qed
    with o show ?thesis by blast
  next
    case (completed cands w1 k w5 mm w6)
    let ?w4 = "emit (Print UpdatingContents)
           (emit (Print (FoundNames (length (find_files_with_placeholder_names [] (files w1)))))
             (emit (Print (FoundContent (length cands))) w1))"
    let ?w5 = "emit (Print RenamingFiles) w5"
    from find_files_with_placeholders_files[OF completed(1)]
    have f1: "files w1 = files w" by simp
    with lk have l4: "lookup_node (files ?w4) q = Some (File f)" by simp
    from update_loop_binary[OF completed(2) l4 bin]
    have l5: "lookup_node (files w5) q = Some (File f)" and o5: "only ?P ?w4 w5" by simp_all
    have "only ?P w1 w5" by (rule only_emit3[OF _ _ _ o5]) simp_all
    with scan[OF completed(1)] have oa: "only ?P w w5" by (rule only_trans)
    then have oa': "only ?P w ?w5" by (rule only_emit_right[rotated]) simp
    from rename_loop_untouched[OF completed(3), of q]
    have ob: "only (\<lambda>e. \<not> is_access e) ?w5 w6"
      and sb: "wf_paths (files ?w5) \<and> no_slash n \<and> no_slash l \<and>
       (\<forall>p\<in>set (find_files_with_placeholder_names [] (files w1)).
          in_search_dirs p \<and> list_all valid_name p)
       \<Longrightarrow> renames_avoid q (new_events ?w5 w6) \<Longrightarrow>
          lookup_node (files w6) q = lookup_node (files ?w5) q"
      by blast+
    have oc: "only (\<lambda>e. \<not> is_access e) ?w5 w'" unfolding completed(5)
      using ob by (simp add: only_emit_right)
    have ob': "only ?W ?w5 w'" by (rule only_mono[OF oc]) auto
    have o: "only ?W w w'" by (rule only_trans[OF only_mono[OF oa', of ?W] ob']) simp
    have ne6: "new_events ?w5 w' = new_events ?w5 w6 @ [Print (Summary k mm), Print Completed]"
      unfolding completed(5) using ob by (auto simp: only_def new_events_def)
    have ne: "new_events w w' = new_events w ?w5 @ new_events ?w5 w'"
      by (rule new_events_trans[OF oa' oc])
    have "wf_paths (files w) \<and> no_slash n \<and> no_slash l \<longrightarrow>
       renames_avoid q (new_events w w') \<longrightarrow> lookup_node (files w') q = Some (File f)"
    proof (intro impI)
      assume h: "wf_paths (files w) \<and> no_slash n \<and> no_slash l"
        and ra: "renames_avoid q (new_events w w')"
      have c: "\<forall>p\<in>set cands. in_search_dirs p"
        using content_candidate[OF completed(1)] by blast
      from h f1 have "wf_paths (files ?w4)" by simp
      from update_loop_wf[OF completed(2) this c] have wf5: "wf_paths (files ?w5)" by simp
      have nc: "\<forall>p\<in>set (find_files_with_placeholder_names [] (files w1)).
          in_search_dirs p \<and> list_all valid_name p"
      proof
        fix p assume "p \<in> set (find_files_with_placeholder_names [] (files w1))"
        from name_candidate[OF this] obtain g where
          "in_search_dirs p" "lookup_node (files w1) p = Some (File g)"
          by (auto simp: name_match_def is_file_def split: option.splits node.splits)
        with wf_pathsD[of "files w1" p g] h f1
        show "in_search_dirs p \<and> list_all valid_name p" by simp
      qed
      from ra ne ne6 have "renames_avoid q (new_events ?w5 w6)" by simp
      from sb[OF _ this] wf5 h nc l5 have "lookup_node (files w6) q = Some (File f)" by simp
      with completed(5) show "lookup_node (files w') q = Some (File f)" by simp
    qed
    with o show ?thesis by blast
  qed
qed

lemma main_binary:
  assumes lk: "lookup_node (files w) q = Some (File f)" and bin: "content f = Binary bs"
  shows "OpenWrite q \<notin> set (new_events w (snd (main y w))) \<and>
    (wf_paths (files w) \<and>
     (case configuration y (files w) of Inr (n, l) \<Rightarrow> no_slash n \<and> no_slash l | Inl e \<Rightarrow> True) \<longrightarrow>
       renames_avoid q (new_events w (snd (main y w))) \<longrightarrow>
       lookup_node (files (snd (main y w))) q = Some (File f))"
proof -
  obtain r w' where m: "main y w = (r, w')" by (cases "main y w")
  let ?W = "\<lambda>e. e \<noteq> OpenWrite q"
  from m have "OpenWrite q \<notin> set (new_events w w') \<and>
    (wf_paths (files w) \<and>
     (case configuration y (files w) of Inr (n, l) \<Rightarrow> no_slash n \<and> no_slash l | Inl e \<Rightarrow> True) \<longrightarrow>
       renames_avoid q (new_events w w') \<longrightarrow> lookup_node (files w') q = Some (File f))"
  proof (cases rule: main_cases)
    case (config_fails e w1)
    from load_configuration_events[OF config_fails(1)] config_fails(3)
    have "events w' = events w @ [Print Starting, OpenRead config_path, Print (ErrorLoading e)]"
      and "files w' = files w" by simp_all
    with new_events_append[of w' w] lk show ?thesis by simp
  next
    case (loaded n l w1)
    let ?w0 = "emit (Print (ProjectLabelLine l)) (emit (Print (ProjectNameLine n)) w1)"
    from load_configuration_events[OF loaded(1)]
    have e0: "events ?w0 = events w @ [Print Starting, OpenRead config_path,
      Print (ProjectNameLine n), Print (ProjectLabelLine l)]" and f0: "files ?w0 = files w"
      by simp_all
    from load_configuration_fst[of y "emit (Print Starting) w"] loaded(1)
    have cfg: "configuration y (files w) = Inr (n, l)" by simp
    from f0 lk have lk0: "lookup_node (files ?w0) q = Some (File f)" by simp
    from main_after_config_binary[OF loaded(2) lk0 bin]
    have o: "only ?W ?w0 w'"
      and s: "wf_paths (files ?w0) \<and> no_slash n \<and> no_slash l \<Longrightarrow>
       renames_avoid q (new_events ?w0 w') \<Longrightarrow> lookup_node (files w') q = Some (File f)"
      by blast+
    from o e0 have ne: "new_events w w' = [Print Starting, OpenRead config_path,
      Print (ProjectNameLine n), Print (ProjectLabelLine l)] @ new_events ?w0 w'"
      by (auto simp: only_def new_events_def)
    from new_events_only[OF o] have "OpenWrite q \<notin> set (new_events ?w0 w')"
      by (auto simp: list_all_iff)
    with ne have 1: "OpenWrite q \<notin> set (new_events w w')" by simp
    from s f0 cfg ne have 2: "wf_paths (files w) \<and>
     (case configuration y (files w) of Inr (n, l) \<Rightarrow> no_slash n \<and> no_slash l | Inl e \<Rightarrow> True) \<longrightarrow>
       renames_avoid q (new_events w w') \<longrightarrow> lookup_node (files w') q = Some (File f)"
      by simp
    from 1 2 show ?thesis by blast
  qed
  with m show ?thesis by simp
qed

section \<open>The scan for names and a rename that succeeds\<close>

lemma map_fst_set_contents [simp]: "map fst (set_contents g fs) = map fst fs"
  by (induction fs) (auto simp: set_contents_def)

lemma map_of_set_contents:
  "map_of (set_contents g fs) p =
     map_option (\<lambda>nd. case nd of File f \<Rightarrow> File (f\<lparr>content := g p\<rparr>) | _ \<Rightarrow> nd) (map_of fs p)"
  by (induction fs) (auto simp: set_contents_def split: node.splits)

lemma is_file_set_contents [simp]: "is_file (set_contents g fs) p = is_file fs p"
  by (auto simp: is_file_def lookup_node_def map_of_set_contents
      split: option.splits node.splits)

lemma path_exists_set_contents [simp]: "path_exists (set_contents g fs) p = path_exists fs p"
  by (auto simp: path_exists_def lookup_node_def map_of_set_contents)

lemma rglob_set_contents [simp]: "rglob (set_contents g fs) d = rglob fs d"
  by (simp add: rglob_def)

lemma names_scan_ignores_content:
  "find_files_with_placeholder_names root (set_contents g fs)
     = find_files_with_placeholder_names root fs"
  by (simp add: find_files_with_placeholder_names_def Let_def cong: if_cong)

lemma name_candidate_member:
  assumes "d \<in> set search_dirs" "path_exists fs [d]" "strict_prefix [d] p"
    "lookup_node fs p = Some (File f)" "has_placeholder (base_name p)"
  shows "p \<in> set (find_files_with_placeholder_names [] fs)"
proof -
  from assms(4) have k: "p \<in> fst ` set fs"
    by (auto dest!: lookup_node_FileD intro: rev_image_eqI)
  from assms(4) have "is_file fs p" by (simp add: is_file_def)
  with k assms(1,2,3,5) show ?thesis
    by (auto simp: find_files_with_placeholder_names_def rglob_iff Let_def)
qed

lemma fs_rename_success:
  assumes "lookup_node fs p = Some (File f)" "rename_fault f = None"
    "walk fs [] (parts dst) = Inr d" "d \<noteq> p" "lookup_node fs d \<noteq> Some Dir"
  shows "fs_rename fs p dst = Inr (AList.update d (File f) (AList.delete p fs))"
proof -
  from assms(3) have nn: "\<not> has_nul (parts dst)" by (rule walk_Inr_no_nul)
  from assms(3,5) have "parts dst \<noteq> []" by auto
  from walk_not_denied[OF assms(3) this] have nd: "lookup_node fs d \<noteq> Some Denied" .
  show ?thesis
  proof (cases "lookup_node fs d")
    case None
    with assms nn show ?thesis by (simp add: fs_rename_def)
  next
    case (Some x)
    with assms(5) nd obtain g where "x = File g" by (cases x) auto
    with Some assms nn show ?thesis by (simp add: fs_rename_def)
  qed
qed

lemma rename_file_moves:
  assumes "lookup_node (files w) p = Some (File f)" "rename_fault f = None"
    "rewritten (base_name p) a b \<noteq> base_name p"
    "walk (files w) [] (parts (path_join (parent p) (rewritten (base_name p) a b))) = Inr d"
    "d \<noteq> p" "lookup_node (files w) d \<noteq> Some Dir"
  shows "fst (rename_file p (YStr a) (YStr b) w) = Inr (path_join (parent p) (rewritten (base_name p) a b))
    \<and> lookup_node (files (snd (rename_file p (YStr a) (YStr b) w))) d = Some (File f)
    \<and> lookup_node (files (snd (rename_file p (YStr a) (YStr b) w))) p = None"
proof -
  let ?np = "path_join (parent p) (rewritten (base_name p) a b)"
  from assms(6) have dn: "d \<noteq> []" by auto
  from assms(1) have pn: "p \<noteq> []" by auto
  from fs_rename_success[OF assms(1,2,4,5,6)]
  have r: "fs_rename (files w) p ?np = Inr (AList.update d (File f) (AList.delete p (files w)))" .
  from rename_file_renamed[OF refl refl assms(3)[unfolded rewritten_def] r[unfolded rewritten_def]]
  have "rename_file p (YStr a) (YStr b) w =
     (Inr ?np, (emit (Rename p ?np) w)\<lparr>files := AList.update d (File f) (AList.delete p (files w))\<rparr>)"
    by (simp add: rewritten_def)
  with dn pn assms(5) show ?thesis
    by (simp add: lookup_node_update lookup_node_delete)
qed

section \<open>A run as a whole\<close>

lemma main_after_config_only:
  assumes m: "main_after_config n l w = (r, w')"
    and pr: "\<And>x. P (Print x)" and rd: "\<And>q. P (OpenRead q)"
    and wr: "\<And>p. in_search_dirs p \<Longrightarrow> content_match (files w) p \<Longrightarrow> P (OpenWrite p)"
    and rn: "\<And>p x r x'. in_search_dirs p \<Longrightarrow> name_match (files w) p \<Longrightarrow>
               rename_file p n l x = (r, x') \<Longrightarrow> only P x x'"
  shows "only P w w'"
proof -
  have scan: "\<And>c w1. find_files_with_placeholders [] (emit (Print Searching) w) = (c, w1)
     \<Longrightarrow> only P w w1"
    unfolding find_files_with_placeholders_def
    by (rule only_emit_left[of P "Print Searching"], rule pr)
       (drule scan_dirs_events, erule only_mono, use rd in auto)
  have upd: "\<And>cands w1 k x y z.
      find_files_with_placeholders [] (emit (Print Searching) w) = (Inr cands, w1) \<Longrightarrow>
      update_loop cands n l k x = (y, z) \<Longrightarrow> only P x z"
  proof -
    fix cands w1 k x y z
    assume s: "find_files_with_placeholders [] (emit (Print Searching) w) = (Inr cands, w1)"
      and u: "update_loop cands n l k x = (y, z)"
    show "only P x z"
    proof (rule update_loop_events[OF u])
      fix p v r v'
      assume p: "p \<in> set cands" and c: "update_file_content p n l v = (r, v')"
      from content_candidate[OF s p] have wp: "P (OpenWrite p)" using wr by simp
      have "P e" if "e = OpenRead p \<or> e = OpenWrite p \<or> is_print e" for e
        using that wp pr rd by (cases e) auto
      with update_file_content_events[OF c] show "only P v v'" by (rule only_mono)
    next
      fix p show "P (Print (UpdatedContent p))" by (rule pr)
    qed
  qed
  have ren: "\<And>k x y z. rename_loop (find_files_with_placeholder_names [] (files w)) n l k x = (y, z)
     \<Longrightarrow> only P x z"
  proof -
    fix k x y z
    assume u: "rename_loop (find_files_with_placeholder_names [] (files w)) n l k x = (y, z)"
    show "only P x z"
    proof (rule rename_loop_events[OF u])
      fix p v r v'
      assume "p \<in> set (find_files_with_placeholder_names [] (files w))"
        "rename_file p n l v = (r, v')"
      with name_candidate[of p "files w"] rn show "only P v v'" by blast
    next
      fix a b show "P (Print (Renamed a b))" by (rule pr)
    qed
  qed
  from m show ?thesis
  proof (cases rule: main_after_config_cases)
    case (scan_raises e)
    from scan[OF scan_raises(1)] show ?thesis .
  next
    case (update_raises cands w1 e)
    have "only P w1 w'"
      by (rule only_emit3[OF pr pr pr upd[OF update_raises(1,2)]])
    with scan[OF update_raises(1)] show ?thesis by (rule only_trans)
  next
    case (rename_raises cands w1 k w5 e)
    have f: "files w1 = files w"
      using find_files_with_placeholders_files[OF rename_raises(1)] by simp
    have "only P w1 w5"
      by (rule only_emit3[OF pr pr pr upd[OF rename_raises(1,2)]])
    with scan[OF rename_raises(1)] have a: "only P w w5" by (rule only_trans)
    have "only P w5 w'"
      by (rule only_emit_left[of P "Print RenamingFiles"], rule pr)
         (rule ren[OF rename_raises(3)[unfolded f]])
    with a show ?thesis by (rule only_trans)
  next
    case (completed cands w1 k w5 m w6)
    have f: "files w1 = files w"
      using find_files_with_placeholders_files[OF completed(1)] by simp
    have "only P w1 w5"
      by (rule only_emit3[OF pr pr pr upd[OF completed(1,2)]])
    with scan[OF completed(1)] have a: "only P w w5" by (rule only_trans)
    have "only P w5 w6"
      by (rule only_emit_left[of P "Print RenamingFiles"], rule pr)
         (rule ren[OF completed(3)[unfolded f]])
    then have "only P w5 w'" unfolding completed(5)
      by (simp add: only_emit_right pr)
    with a show ?thesis by (rule only_trans)
  qed
qed

lemma main_only:
  assumes m: "main y w = (r, w')"
    and pr: "\<And>x. P (Print x)" and rd: "\<And>q. P (OpenRead q)"
    and wr: "\<And>p. in_search_dirs p \<Longrightarrow> content_match (files w) p \<Longrightarrow> P (OpenWrite p)"
    and rn: "\<And>n l p x r x'. configuration y (files w) = Inr (n, l) \<Longrightarrow> in_search_dirs p \<Longrightarrow>
               name_match (files w) p \<Longrightarrow> rename_file p n l x = (r, x') \<Longrightarrow> only P x x'"
  shows "list_all P (new_events w w')"
proof -
  from m have "only P w w'"
  proof (cases rule: main_cases)
    case (config_fails e w1)
    from load_configuration_events[OF config_fails(1)] config_fails(3) pr rd
    show ?thesis by (simp add: only_def)
  next
    case (loaded n l w1)
    let ?w0 = "emit (Print (ProjectLabelLine l)) (emit (Print (ProjectNameLine n)) w1)"
    from load_configuration_events[OF loaded(1)]
    have e0: "events ?w0 = events w @ [Print Starting, OpenRead config_path,
      Print (ProjectNameLine n), Print (ProjectLabelLine l)]" and f0: "files ?w0 = files w"
      by simp_all
    from load_configuration_fst[of y "emit (Print Starting) w"] loaded(1)
    have cfg: "configuration y (files w) = Inr (n, l)" by simp
    have "only P ?w0 w'"
      by (rule main_after_config_only[OF loaded(2) pr rd])
         (use wr rn[OF cfg] f0 in auto)
    moreover from e0 pr rd have "only P w ?w0" by (simp add: only_def)
    ultimately show ?thesis by (rule only_trans[rotated])
  qed
  from new_events_only[OF this] show ?thesis by simp
qed

lemma main_writes_inside: "list_all writes_inside (new_events w (snd (main y w)))"
proof -
  obtain r w' where m: "main y w = (r, w')" by (cases "main y w")
  have "list_all writes_inside (new_events w w')"
  proof (rule main_only[OF m])
    fix n l p x r x'
    assume p: "in_search_dirs p" and c: "rename_file p n l x = (r, x')"
    have "writes_inside e" if "(\<exists>d. e = Rename p d) \<or> is_print e" for e
      using that p by (cases e) auto
    with rename_file_events[OF c] show "only writes_inside x x'" by (rule only_mono)
  qed simp_all
  with m show ?thesis by simp
qed

lemma rename_file_stays:
  assumes c: "rename_file p n l w = (r, w')"
    and ns: "no_slash n" "no_slash l" and p: "in_search_dirs p" "list_all valid_name p"
  shows "only rename_stays w w'"
proof (cases "py_replace (base_name p) tok_name n")
  case (Inl e)
  with c show ?thesis by (auto simp: rename_file_def)
next
  case n1: (Inr n1)
  show ?thesis
  proof (cases "py_replace n1 tok_label l")
    case (Inl e)
    with n1 c show ?thesis by (auto simp: rename_file_def)
  next
    case nn: (Inr new_name)
    from n1 obtain a where a: "n = YStr a" "n1 = str_replace (base_name p) tok_name a"
      by (auto dest: py_replace_Inr)
    from nn obtain b where b: "l = YStr b" "new_name = str_replace n1 tok_label b"
      by (auto dest: py_replace_Inr)
    show ?thesis
    proof (cases "new_name = base_name p")
      case True
      with n1 nn c show ?thesis by (auto simp: rename_file_def)
    next
      case False
      let ?d = "path_join (parent p) new_name"
      from in_search_dirs_parent[OF p(1)] have pne: "p \<noteq> []"
        and up: "under_search_dirs (parent p)" by simp_all
      with p(2) have "CHR ''/'' \<notin> set (base_name p)"
        by (auto simp: base_name_def list_all_iff valid_name_def)
      with set_rewritten[of "base_name p" a b] ns a b
      have sl: "CHR ''/'' \<notin> set new_name" by (auto simp: rewritten_def)
      from path_join_plain[OF sl, of "parent p"] up
      have "rename_stays (Rename p ?d)" by (auto intro: under_search_dirs_append)
      then have w1: "only rename_stays w (emit (Rename p ?d) w)" by (simp add: only_emit)
      show ?thesis
      proof (cases "fs_rename (files w) p ?d")
        case (Inl e)
        with n1 nn False c w1 show ?thesis
          by (auto simp: rename_file_def Let_def only_emit_right split: if_splits)
      next
        case (Inr fs')
        with n1 nn False c w1 show ?thesis
          by (auto simp: rename_file_def Let_def)
      qed
    qed
  qed
qed

lemma main_renames_stay:
  assumes "wf_paths (files w)"
    and "case configuration y (files w) of Inr (n, l) \<Rightarrow> no_slash n \<and> no_slash l | Inl e \<Rightarrow> True"
  shows "list_all rename_stays (new_events w (snd (main y w)))"
proof -
  obtain r w' where m: "main y w = (r, w')" by (cases "main y w")
  have "list_all rename_stays (new_events w w')"
  proof (rule main_only[OF m])
    fix n l p x r x'
    assume cfg: "configuration y (files w) = Inr (n, l)" and p: "in_search_dirs p"
      and nm: "name_match (files w) p" and c: "rename_file p n l x = (r, x')"
    from cfg assms(2) have ns: "no_slash n" "no_slash l" by simp_all
    from nm obtain f where "lookup_node (files w) p = Some (File f)"
      by (auto simp: name_match_def is_file_def split: option.splits node.splits)
    from wf_pathsD[OF assms(1) this] have "list_all valid_name p" .
    from rename_file_stays[OF c ns p this] show "only rename_stays x x'" .
  qed simp_all
  with m show ?thesis by simp
qed

text \<open>The steps of a run that reaches its end.\<close>

lemma completed_run:
  assumes "main y w = (Inr None, w')"
  obtains n l cands w0 w1 w4 k w5 m w6 A where
    "configuration y (files w) = Inr (n, l)"
    "files w0 = files w" "find_files_with_placeholders [] w0 = (Inr cands, w1)"
    "files w4 = files w" "update_loop cands n l 0 w4 = (Inr k, w5)"
    "rename_loop (find_files_with_placeholder_names [] (files w)) n l 0
       (emit (Print RenamingFiles) w5) = (Inr m, w6)"
    "files w' = files w6"
    "new_events w w' = A @ new_events (emit (Print RenamingFiles) w5) w6
        @ [Print (Summary k m), Print Completed]"
    "list_all (\<lambda>e. \<not> is_rename e) A"
  using assms
proof (cases rule: main_cases)
  case (config_fails e w1)
  then show ?thesis by simp
next
  case (loaded n l wc)
  let ?w0 = "emit (Print (ProjectLabelLine l)) (emit (Print (ProjectNameLine n)) wc)"
  let ?N = "\<lambda>e. \<not> is_rename e"
  from load_configuration_events[OF loaded(1)]
  have e0: "events ?w0 = events w @ [Print Starting, OpenRead config_path,
      Print (ProjectNameLine n), Print (ProjectLabelLine l)]" and f0: "files ?w0 = files w"
    by simp_all
  then have o0: "only ?N w ?w0" by (simp add: only_def)
  from load_configuration_fst[of y "emit (Print Starting) w"] loaded(1)
  have cfg: "configuration y (files w) = Inr (n, l)" by simp
  from loaded(2) show ?thesis
  proof (cases rule: main_after_config_cases)
    case (completed cands w1 k w5 m w6)
    let ?ws = "emit (Print Searching) ?w0"
    let ?w4 = "emit (Print UpdatingContents)
           (emit (Print (FoundNames (length (find_files_with_placeholder_names [] (files w1)))))
             (emit (Print (FoundContent (length cands))) w1))"
    let ?w5 = "emit (Print RenamingFiles) w5"
    from find_files_with_placeholders_files[OF completed(1)] f0
    have f1: "files w1 = files w" by simp
    have fs: "files ?ws = files w" using f0 by simp
    have f4: "files ?w4 = files w" using f1 by simp
    have scan: "\<And>c x. find_files_with_placeholders [] (emit (Print Searching) ?w0) = (c, x)
       \<Longrightarrow> only ?N ?w0 x"
      unfolding find_files_with_placeholders_def
      by (rule only_emit_left[of ?N "Print Searching"], simp)
         (drule scan_dirs_events, erule only_mono, auto)
    have o1: "only ?N ?w0 w1" by (rule scan[OF completed(1)])
    have upd: "\<And>c k x y z. update_loop c n l k x = (y, z) \<Longrightarrow> only ?N x z"
      by (erule update_loop_events) (auto dest!: update_file_content_events elim!: only_mono)
    have o2: "only ?N w1 w5"
      by (rule only_emit3[OF _ _ _ upd[OF completed(2)]]) simp_all
    have o3: "only ?N w5 ?w5" by (simp add: only_emit)
    have oa: "only ?N w ?w5"
      using o0 o1 o2 o3 by (blast intro: only_trans)
    have ob: "only (\<lambda>e. \<not> is_access e) ?w5 w6"
      using rename_loop_untouched[OF completed(3)] by blast
    from ob have ne6: "new_events ?w5 w' = new_events ?w5 w6 @ [Print (Summary k m), Print Completed]"
      unfolding completed(5) by (auto simp: only_def new_events_def)
    have oc: "only (\<lambda>e. \<not> is_access e) ?w5 w'" unfolding completed(5)
      using ob by (simp add: only_emit_right)
    have ne: "new_events w w' = new_events w ?w5 @ new_events ?w5 w6
        @ [Print (Summary k m), Print Completed]"
      using new_events_trans[OF oa oc] ne6 by simp
    from new_events_only[OF oa] have na: "list_all ?N (new_events w ?w5)" by simp
    from completed(5) have fw: "files w' = files w6" by simp
    show ?thesis
      by (rule that[OF cfg fs completed(1) f4 completed(2) completed(3)[unfolded f1] fw ne na])
  qed simp_all
qed

text \<open>A text file that holds a token, after a run that reaches its end.\<close>

lemma main_rewrites:
  assumes run: "main y w = (Inr None, w')"
    and cfg: "configuration y (files w) = Inr (YStr a, YStr b)"
    and d: "d \<in> set search_dirs" "path_exists (files w) [d]" "strict_prefix [d] p"
    and f: "lookup_node (files w) p = Some (File f)" "content f = Text s"
      "read_fault f = None" "write_fault f = None"
    and hp: "has_placeholder (translate_newlines s)"
    and un: "\<forall>x g. lookup_node (files w) x = Some (File g) \<and> ident g = ident f \<longrightarrow> x = p"
  shows "(\<forall>x g. lookup_node (files w') x = Some (File g) \<and> ident g = ident f \<longrightarrow>
            g = (if rewritten (translate_newlines s) a b = translate_newlines s then f
                 else f\<lparr>content := Text (rewritten (translate_newlines s) a b)\<rparr>))
       \<and> (wf_paths (files w) \<and> CHR ''/'' \<notin> set a \<and> CHR ''/'' \<notin> set b
            \<and> renames_avoid p (new_events w w') \<longrightarrow>
          lookup_node (files w') p =
            Some (File (if rewritten (translate_newlines s) a b = translate_newlines s then f
                        else f\<lparr>content := Text (rewritten (translate_newlines s) a b)\<rparr>)))"
proof -
  let ?t = "translate_newlines s"
  let ?g = "if rewritten ?t a b = ?t then f else f\<lparr>content := Text (rewritten ?t a b)\<rparr>"
  from run obtain n l cands w0 w1 w4 k w5 m w6 A where
    c: "configuration y (files w) = Inr (n, l)"
    and s: "files w0 = files w" "find_files_with_placeholders [] w0 = (Inr cands, w1)"
    and u: "files w4 = files w" "update_loop cands n l 0 w4 = (Inr k, w5)"
    and r: "rename_loop (find_files_with_placeholder_names [] (files w)) n l 0
       (emit (Print RenamingFiles) w5) = (Inr m, w6)"
    and fw: "files w' = files w6"
    and ne: "new_events w w' = A @ new_events (emit (Print RenamingFiles) w5) w6
        @ [Print (Summary k m), Print Completed]"
    by (rule completed_run)
  from c cfg have nl: "n = YStr a" "l = YStr b" by simp_all
  have mem: "p \<in> set cands"
    by (rule content_candidate_member[OF s(2) d(1) _ d(3) _ f(2,3) hp]) (use s(1) d(2) f(1) in auto)
  have dist: "distinct cands" by (rule content_candidates_distinct[OF s(2)])
  from f(1) u(1) have l4: "lookup_node (files w4) p = Some (File f)" by simp
  from update_loop_rewrites[OF u(2)[unfolded nl] mem dist l4 f(2,3,4)]
  have l5: "lookup_node (files w5) p = Some (File ?g)" .
  from un u(1) have "\<forall>x g. lookup_node (files w4) x = Some (File g) \<and> ident g = ident f \<longrightarrow> x = p"
    by simp
  from update_loop_unique[OF u(2) this]
  have u5: "\<forall>x g. lookup_node (files w5) x = Some (File g) \<and> ident g = ident f \<longrightarrow> x = p" .
  with l5 have k5: "\<forall>x g. lookup_node (files (emit (Print RenamingFiles) w5)) x = Some (File g)
      \<and> ident g = ident f \<longrightarrow> g = ?g" by auto
  from rename_loop_carries[OF r k5] fw
  have 1: "\<forall>x g. lookup_node (files w') x = Some (File g) \<and> ident g = ident f \<longrightarrow> g = ?g"
    by simp
  have 2: "wf_paths (files w) \<and> CHR ''/'' \<notin> set a \<and> CHR ''/'' \<notin> set b
            \<and> renames_avoid p (new_events w w') \<longrightarrow> lookup_node (files w') p = Some (File ?g)"
  proof
    assume h: "wf_paths (files w) \<and> CHR ''/'' \<notin> set a \<and> CHR ''/'' \<notin> set b
            \<and> renames_avoid p (new_events w w')"
    have cin: "\<forall>p\<in>set cands. in_search_dirs p"
      using content_candidate[of w0 cands w1] s by blast
    from h u(1) have "wf_paths (files w4)" by simp
    from update_loop_wf[OF u(2) this cin] have wf5: "wf_paths (files (emit (Print RenamingFiles) w5))"
      by simp
    have nc: "\<forall>p\<in>set (find_files_with_placeholder_names [] (files w)).
          in_search_dirs p \<and> list_all valid_name p"
    proof
      fix q assume "q \<in> set (find_files_with_placeholder_names [] (files w))"
      from name_candidate[OF this] obtain g where
        "in_search_dirs q" "lookup_node (files w) q = Some (File g)"
        by (auto simp: name_match_def is_file_def split: option.splits node.splits)
      with wf_pathsD[of "files w" q g] h
      show "in_search_dirs q \<and> list_all valid_name q" by simp
    qed
    from h ne have ra: "renames_avoid p (new_events (emit (Print RenamingFiles) w5) w6)" by simp
    from rename_loop_untouched[OF r, of p] wf5 h nl nc ra
    have "lookup_node (files w6) p = lookup_node (files (emit (Print RenamingFiles) w5)) p"
      by simp
    with l5 fw show "lookup_node (files w') p = Some (File ?g)" by simp
  qed
  from 1 2 show ?thesis by blast
qed

section \<open>The claims\<close>

text \<open>
  C6. In every run no rename is attempted until the content updates are over: in the record
  of the operations of a run, no file is opened for reading or writing once a rename has been
  attempted, so the rewriting of every content candidate precedes the renaming of every name
  candidate.
\<close>

theorem renames_follow_content_updates:
  "renames_last (drop (length (events w)) (events (snd (main y w))))"
proof -
  obtain r w' where m: "main y w = (r, w')" by (cases "main y w")
  from main_events[OF m] obtain A B where
    ab: "events w' = events w @ A @ B" "list_all (\<lambda>e. \<not> is_rename e) A"
    "list_all (\<lambda>e. (\<exists>p d. e = Rename p d \<and> p \<in> set (find_files_with_placeholder_names [] (files w)))
                   \<or> is_print e) B"
    by blast
  from ab(3) have "list_all (\<lambda>e. \<not> is_access e) B"
    by (auto simp: list_all_iff)
  with ab(2) have "renames_last (A @ B)" by (rule renames_last_append)
  with ab(1) m show ?thesis by simp
qed

text \<open>
  C10. Only regular files are candidates: a directory under the searched directories, also
  one whose name holds a token, is selected by neither scan, is never the source of a rename,
  and is still a directory under its name after the run.
\<close>

theorem directories_are_never_renamed:
  assumes "lookup_node (files w) p = Some Dir"
  shows "lookup_node (files (snd (main y w))) p = Some Dir
       \<and> p \<notin> set (find_files_with_placeholder_names [] (files w))
       \<and> (case fst (find_files_with_placeholders [] w) of
            Inr files_to_update \<Rightarrow> p \<notin> set files_to_update | Inl e \<Rightarrow> True)
       \<and> (\<forall>d. Rename p d \<notin> set (drop (length (events w)) (events (snd (main y w)))))"
proof -
  have nf: "\<not> is_file (files w) p" using assms by (simp add: is_file_def)
  have 1: "p \<notin> set (find_files_with_placeholder_names [] (files w))"
    using name_candidate[of p "files w"] nf by (auto simp: name_match_def)
  have 2: "(case fst (find_files_with_placeholders [] w) of
            Inr files_to_update \<Rightarrow> p \<notin> set files_to_update | Inl e \<Rightarrow> True)"
  proof (cases "find_files_with_placeholders [] w")
    case (Pair r w1)
    show ?thesis
    proof (cases r)
      case (Inl e)
      with Pair show ?thesis by simp
    next
      case (Inr c)
      with Pair content_candidate[of w c w1 p] nf show ?thesis
        by (auto simp: content_match_def)
    qed
  qed
  obtain r w' where m: "main y w = (r, w')" by (cases "main y w")
  from main_events[OF m] obtain A B where
    ab: "events w' = events w @ A @ B" "list_all (\<lambda>e. \<not> is_rename e) A"
    "list_all (\<lambda>e. (\<exists>p d. e = Rename p d \<and> p \<in> set (find_files_with_placeholder_names [] (files w)))
                   \<or> is_print e) B"
    by blast
  have 3: "\<forall>d. Rename p d \<notin> set (drop (length (events w)) (events (snd (main y w))))"
  proof
    fix d
    from ab(2) have "Rename p d \<notin> set A" by (auto simp: list_all_iff)
    moreover from ab(3) 1 have "Rename p d \<notin> set B" by (auto simp: list_all_iff)
    ultimately show "Rename p d \<notin> set (drop (length (events w)) (events (snd (main y w))))"
      using ab(1) m by simp
  qed
  from main_dirs[OF assms] 1 2 3 show ?thesis by blast
qed

theorem directories_are_never_renamed_witness:
  "lookup_node (files demo_world) [''force-app'', ''__PROJECT_LABEL__''] = Some Dir
   \<and> lookup_node (files (snd (main demo_parse demo_world))) [''force-app'', ''__PROJECT_LABEL__'']
       = Some Dir
   \<and> [''force-app'', ''__PROJECT_LABEL__'']
       \<notin> set (find_files_with_placeholder_names [] (files demo_world))"
proof -
  have h: "lookup_node (files demo_world) [''force-app'', ''__PROJECT_LABEL__''] = Some Dir"
    by (simp add: demo_world_def demo_files_def lookup_node_def)
  from directories_are_never_renamed[OF h, of demo_parse] h show ?thesis by blast
qed










text \<open>
  C8, as stated, fails. With \<^verbatim>\<open>project:\<close> left empty in \<^verbatim>\<open>cumulusci.yml\<close> the required keys
  are absent, and \<open>get_project_values\<close> raises the \<^verbatim>\<open>TypeError\<close> of subscripting \<^verbatim>\<open>None\<close>,
  not the error for a missing field: only \<^verbatim>\<open>KeyError\<close> is translated. And a value that is
  not a string is returned as it is.
\<close>

theorem absent_key_without_missing_field_error:
  "field_at (YMap [(''project'', YNull)]) name_path = None
   \<and> get_project_values (YMap [(''project'', YNull)]) = Inl TypeError
   \<and> get_project_values (YMap [(''project'', YNull)]) \<noteq> Inl missing_field
   \<and> get_project_values
        (YMap [(''project'', YMap [(''package'',
           YMap [(''name'', YInt 7), (''name_managed'', YStr ''Seven'')])])])
       = Inr (YInt 7, YStr ''Seven'')"
  by code_simp

text \<open>
  C8, amended. \<open>load_cumulusci_config\<close> fails with \<^verbatim>\<open>FileNotFoundError\<close> exactly when the file
  is absent, and with the parse error exactly when the file can be read as text and the
  parser rejects it; it returns what the parser returns and modifies no file (a file that
  cannot be opened or decoded raises the error of the read). \<open>get_project_values\<close> fails with
  the missing-field error exactly when a mapping on the way to one of the two keys lacks its
  key, with \<^verbatim>\<open>TypeError\<close> exactly when instead a value on the way is not a mapping, and
  otherwise returns the two configured values, of whatever type.
\<close>

theorem config_loader_contract:
  "(fst (load_cumulusci_config y w) = Inl FileNotFoundError
      \<longleftrightarrow> lookup_node (files w) config_path = None)
   \<and> (fst (load_cumulusci_config y w) = Inl parse_error
      \<longleftrightarrow> (\<exists>s. read_text (files w) config_path = Inr s \<and> y s = None))
   \<and> (fst (load_cumulusci_config y w) = Inr c
      \<longleftrightarrow> (\<exists>s. read_text (files w) config_path = Inr s \<and> y s = Some c))
   \<and> files (snd (load_cumulusci_config y w)) = files w
   \<and> (get_project_values c = Inl missing_field
      \<longleftrightarrow> lacks_key c name_path \<or> lacks_key c managed_path)
   \<and> (get_project_values c = Inl TypeError
      \<longleftrightarrow> \<not> (lacks_key c name_path \<or> lacks_key c managed_path)
          \<and> (field_at c name_path = None \<or> field_at c managed_path = None))
   \<and> (get_project_values c = Inr (a, b)
      \<longleftrightarrow> field_at c name_path = Some a \<and> field_at c managed_path = Some b)"
proof -
  have 1: "fst (load_cumulusci_config y w) = Inl FileNotFoundError
      \<longleftrightarrow> lookup_node (files w) config_path = None"
    unfolding load_cumulusci_config_fst read_text_FileNotFound[symmetric]
    by (auto simp: parse_error_def split: sum.splits option.splits)
  have 2: "fst (load_cumulusci_config y w) = Inl parse_error
      \<longleftrightarrow> (\<exists>s. read_text (files w) config_path = Inr s \<and> y s = None)"
    unfolding load_cumulusci_config_fst
    using read_text_not_ValueError[of "files w" config_path]
    by (auto simp: parse_error_def split: sum.splits option.splits)
  have 3: "fst (load_cumulusci_config y w) = Inr c
      \<longleftrightarrow> (\<exists>s. read_text (files w) config_path = Inr s \<and> y s = Some c)"
    unfolding load_cumulusci_config_fst
    by (auto split: sum.splits option.splits)
  have 4: "files (snd (load_cumulusci_config y w)) = files w"
    by (cases "load_cumulusci_config y w") (auto dest: load_cumulusci_config_files)
  have 7: "get_project_values c = Inr (a, b)
      \<longleftrightarrow> field_at c name_path = Some a \<and> field_at c managed_path = Some b"
    by (rule get_project_values_Inr)
  have e: "\<And>x. get_project_values c = Inl x \<Longrightarrow> x = missing_field \<or> x = TypeError"
    by (auto simp: get_project_values_def missing_field_def split: sum.splits if_splits
        dest: lookup3_error)
  have 6: "get_project_values c = Inl TypeError
      \<longleftrightarrow> \<not> (lacks_key c name_path \<or> lacks_key c managed_path)
          \<and> (field_at c name_path = None \<or> field_at c managed_path = None)"
  proof (cases "get_project_values c")
    case (Inl x)
    with e[of x] get_project_values_missing[of c] get_project_values_Inr[of c] show ?thesis
      by (cases "field_at c name_path"; cases "field_at c managed_path")
         (auto simp: missing_field_def)
  next
    case (Inr v)
    obtain a' b' where "v = (a', b')" by (cases v)
    with Inr get_project_values_Inr[of c a' b'] field_at_lacks_key[of c name_path a']
      field_at_lacks_key[of c managed_path b'] show ?thesis
      by auto
  qed
  from 1 2 3 4 get_project_values_missing[of c] 6 7 show ?thesis by blast
qed

theorem config_loader_contract_witness:
  "lookup_node (files demo_world) config_path \<noteq> None
   \<and> fst (load_cumulusci_config demo_parse demo_world) = Inr demo_config
   \<and> get_project_values demo_config = Inr (YStr ''Acme'', YStr ''Acme-Label'')
   \<and> \<not> lacks_key demo_config name_path"
proof -
  have h1: "read_text (files demo_world) config_path = Inr demo_yaml \<and>
      demo_parse demo_yaml = Some demo_config"
    by code_simp
  have h2: "field_at demo_config name_path = Some (YStr ''Acme'') \<and>
      field_at demo_config managed_path = Some (YStr ''Acme-Label'')"
    by code_simp
  have h3: "lookup_node (files demo_world) config_path \<noteq> None \<and> \<not> lacks_key demo_config name_path"
    by code_simp
  from config_loader_contract[of demo_parse demo_world demo_config "YStr ''Acme''"
      "YStr ''Acme-Label''"] h1 h2 h3
  show ?thesis by blast
qed




text \<open>
  C2, as stated, fails: when the configured name holds the token itself, every application
  leaves a token behind and the next one changes the text again.
\<close>

theorem second_application_changes_the_text:
  "rewritten ''__PROJECT_NAME__'' ''X__PROJECT_NAME__'' ''L'' = ''X__PROJECT_NAME__''
   \<and> rewritten (rewritten ''__PROJECT_NAME__'' ''X__PROJECT_NAME__'' ''L'') ''X__PROJECT_NAME__'' ''L''
       = ''XX__PROJECT_NAME__''
   \<and> rewritten (rewritten ''__PROJECT_NAME__'' ''X__PROJECT_NAME__'' ''L'') ''X__PROJECT_NAME__'' ''L''
       \<noteq> rewritten ''__PROJECT_NAME__'' ''X__PROJECT_NAME__'' ''L''"
  by code_simp

text \<open>
  C2, amended. When both replacement values fit the tokens (the name fits
  \<^verbatim>\<open>__PROJECT_NAME__\<close>, the label fits both tokens), rewriting a text a second time leaves it
  unchanged, and \<open>update_file_content\<close> on a file that holds a rewritten text writes nothing
  and returns \<^verbatim>\<open>False\<close>.
\<close>

theorem rewriting_is_idempotent:
  assumes "fits tok_name a" "fits tok_name b" "fits tok_label b"
  shows "rewritten (rewritten s a b) a b = rewritten s a b
       \<and> (read_text (files w) p = Inr (rewritten s a b) \<longrightarrow>
            update_file_content p (YStr a) (YStr b) w = (Inr False, emit (OpenRead p) w))"
  using rewritten_idempotent[OF assms, of s]
  by (simp add: update_file_content_rewritten)

theorem rewriting_is_idempotent_witness:
  "fits tok_name ''Acme'' \<and> fits tok_name ''Acme-Label'' \<and> fits tok_label ''Acme-Label''
   \<and> rewritten (rewritten ''class __PROJECT_NAME__ // __PROJECT_LABEL__'' ''Acme'' ''Acme-Label'')
        ''Acme'' ''Acme-Label''
       = rewritten ''class __PROJECT_NAME__ // __PROJECT_LABEL__'' ''Acme'' ''Acme-Label''"
proof -
  have h1: "fits tok_name ''Acme''" by code_simp
  have h2: "fits tok_name ''Acme-Label''" by code_simp
  have h3: "fits tok_label ''Acme-Label''" by code_simp
  from rewriting_is_idempotent[OF h1 h2 h3] h1 h2 h3 show ?thesis by blast
qed








end
